theory Spec2Isabelle
  imports Main "HOL-Library.Product_Lexorder" "HOL-Library.Multiset"
begin

section \<open>Data model\<close>

text \<open>
  A match is a tagged span over the input string: its name (the primary tag), its
  secondary tags, its formatted value and the half-open offsets \<open>[m_start, m_end)\<close>.
  Path markers are spans of the same shape kept in a collection of their own.
  The match collection keeps its entries in insertion order.
\<close>

record match =
  m_name :: string
  m_tags :: "string list"
  m_value :: string
  m_start :: nat
  m_end :: nat

record matches =
  items :: "match list"
  markers :: "match list"
  input_string :: string

datatype error = IndexError | ValueError

text \<open>Sequencing of steps that may raise: the first error ends the computation.\<close>

definition and_then :: "error + 'a \<Rightarrow> ('a \<Rightarrow> error + 'b) \<Rightarrow> error + 'b" where
  "and_then r f = (case r of Inl e \<Rightarrow> Inl e | Inr x \<Rightarrow> f x)"

section \<open>The span query surface\<close>

text \<open>
  Modelled from the spec: the query surface of the match collection (the rebulk
  \<open>Matches\<close> class) is a collaborator whose code is not part of
  \<open>episode_title.py\<close>. The definitions of this section follow the interface
  description: \<open>named\<close>, \<open>previous\<close>, \<open>range\<close>, \<open>holes\<close>, \<open>chain_before\<close>,
  \<open>remove\<close> and \<open>append\<close>.
\<close>

text \<open>A query asked for one result (index 0) answers with the first match found or
  with nothing; the rules only test whether a match was found.\<close>

definition first_of :: "'a list \<Rightarrow> 'a option" where
  "first_of xs = (case xs of [] \<Rightarrow> None | x # _ \<Rightarrow> Some x)"

text \<open>Document order: by start offset, then by end offset; entries with the same
  span keep their insertion order.\<close>

definition doc_order :: "match list \<Rightarrow> match list" where
  "doc_order xs = sort_key (\<lambda>m. (m_start m, m_end m)) xs"

text \<open>Modelled from the spec: \<open>named(tag)\<close>, all matches with a given tag, in
  document order.\<close>

definition named_in :: "string \<Rightarrow> match list \<Rightarrow> match list" where
  "named_in n xs = doc_order (filter (\<lambda>m. m_name m = n) xs)"

definition named :: "string \<Rightarrow> matches \<Rightarrow> match list" where
  "named n ms = named_in n (items ms)"

definition markers_named :: "string \<Rightarrow> matches \<Rightarrow> match list" where
  "markers_named n ms = filter (\<lambda>m. m_name m = n) (markers ms)"

text \<open>Modelled from the spec: \<open>previous(anchor, predicate, index)\<close>, the nearest
  preceding match. The call sites pass no separator set and no path segment, so the
  search is positional: it walks back from the anchor's start to the nearest offset at
  which some match ends, whatever lies in between, and keeps the matches ending there
  that satisfy the predicate.\<close>

definition ending :: "nat \<Rightarrow> matches \<Rightarrow> match list" where
  "ending p ms = filter (\<lambda>m. m_end m = p) (items ms)"

fun nearest_ending :: "nat \<Rightarrow> matches \<Rightarrow> match list" where
  "nearest_ending 0 ms = ending 0 ms"
| "nearest_ending (Suc p) ms =
     (if ending (Suc p) ms \<noteq> [] then ending (Suc p) ms else nearest_ending p ms)"

definition previous :: "match \<Rightarrow> (match \<Rightarrow> bool) \<Rightarrow> matches \<Rightarrow> match list" where
  "previous m P ms = filter P (nearest_ending (m_start m) ms)"

text \<open>Modelled from the spec: \<open>range(start, end, predicate, index)\<close>, the matches
  fully inside \<open>[start, end)\<close> that satisfy the predicate, in document order. An
  absent end means no upper bound.\<close>

definition range_matches ::
  "nat \<Rightarrow> nat option \<Rightarrow> (match \<Rightarrow> bool) \<Rightarrow> matches \<Rightarrow> match list" where
  "range_matches s e P ms =
     filter (\<lambda>m. s \<le> m_start m \<and> (case e of None \<Rightarrow> True | Some e' \<Rightarrow> m_end m \<le> e') \<and> P m)
       (doc_order (items ms))"

text \<open>Modelled from the spec: \<open>chain_before(position, separators, predicate, index)\<close>.
  The walk goes backward from \<open>position\<close>; an offset covered by a match satisfying the
  predicate adds that match to the chain unless it is there already, an offset holding
  a separator is skipped, and any other offset ends the walk. The nearest match comes first.\<close>

definition at_index :: "nat \<Rightarrow> matches \<Rightarrow> match list" where
  "at_index i ms = filter (\<lambda>m. m_start m \<le> i \<and> i < m_end m) (items ms)"

definition sep_at :: "string \<Rightarrow> string \<Rightarrow> nat \<Rightarrow> bool" where
  "sep_at seps s i = (i < length s \<and> s ! i \<in> set seps)"

definition chain_add :: "match list \<Rightarrow> match \<Rightarrow> match list" where
  "chain_add chain m = (if m \<in> set chain then chain else chain @ [m])"

fun chain_walk ::
  "string \<Rightarrow> (match \<Rightarrow> bool) \<Rightarrow> matches \<Rightarrow> nat \<Rightarrow> match list \<Rightarrow> match list" where
  "chain_walk seps P ms 0 chain = chain"
| "chain_walk seps P ms (Suc i) chain =
     (let filtered = filter P (at_index i ms) in
      if filtered \<noteq> [] then
        chain_walk seps P ms i (foldl chain_add chain filtered)
      else if sep_at seps (input_string ms) i then chain_walk seps P ms i chain
      else chain)"

definition chain_before ::
  "nat \<Rightarrow> string \<Rightarrow> (match \<Rightarrow> bool) \<Rightarrow> matches \<Rightarrow> match list" where
  "chain_before position seps P ms = chain_walk seps P ms position []"

text \<open>Modelled from the spec: \<open>holes(start, end, formatter, separators, predicate,
  index)\<close>. A hole is a maximal run of offsets of \<open>[start, end)\<close>, within the input
  string, that no match covers; separators are trimmed from both of its ends, its value
  is the formatter applied to the remaining text, and the predicate decides whether it
  is kept.\<close>

definition covered :: "matches \<Rightarrow> nat \<Rightarrow> bool" where
  "covered ms i = (\<exists>m \<in> set (items ms). m_start m \<le> i \<and> i < m_end m)"

fun hole_spans :: "(nat \<Rightarrow> bool) \<Rightarrow> nat option \<Rightarrow> nat \<Rightarrow> nat list \<Rightarrow> (nat \<times> nat) list" where
  "hole_spans cov opn e [] = (case opn of None \<Rightarrow> [] | Some s \<Rightarrow> [(s, e)])"
| "hole_spans cov opn e (i # is) =
     (if cov i then
        (case opn of None \<Rightarrow> hole_spans cov None e is
                   | Some s \<Rightarrow> (s, i) # hole_spans cov None e is)
      else
        (case opn of None \<Rightarrow> hole_spans cov (Some i) e is
                   | Some s \<Rightarrow> hole_spans cov (Some s) e is))"

fun trim_left :: "string \<Rightarrow> string \<Rightarrow> nat \<Rightarrow> nat \<Rightarrow> nat" where
  "trim_left seps s a 0 = a"
| "trim_left seps s a (Suc k) = (if sep_at seps s a then trim_left seps s (Suc a) k else a)"

fun trim_right :: "string \<Rightarrow> string \<Rightarrow> nat \<Rightarrow> nat \<Rightarrow> nat" where
  "trim_right seps s a 0 = a"
| "trim_right seps s a (Suc k) =
     (if sep_at seps s (a + k) then trim_right seps s a k else a + Suc k)"

definition trim_span :: "string \<Rightarrow> string \<Rightarrow> nat \<times> nat \<Rightarrow> nat \<times> nat" where
  "trim_span seps s se =
     (let a = trim_left seps s (fst se) (snd se - fst se) in (a, trim_right seps s a (snd se - a)))"

definition hole_match :: "(string \<Rightarrow> string) \<Rightarrow> string \<Rightarrow> nat \<times> nat \<Rightarrow> match" where
  "hole_match formatter s se =
     \<lparr>m_name = [], m_tags = [], m_value = formatter (take (snd se - fst se) (drop (fst se) s)),
      m_start = fst se, m_end = snd se\<rparr>"

definition holes ::
  "nat \<Rightarrow> nat \<Rightarrow> (string \<Rightarrow> string) \<Rightarrow> string \<Rightarrow> (match \<Rightarrow> bool) \<Rightarrow> matches \<Rightarrow> match list" where
  "holes s e formatter seps P ms =
     (let e' = min e (length (input_string ms)) in
      filter P (map (\<lambda>se. hole_match formatter (input_string ms) (trim_span seps (input_string ms) se))
        (hole_spans (covered ms) None e' [s ..< e'])))"

text \<open>Modelled from the spec: \<open>remove(match)\<close> and \<open>append(match)\<close>. Removing takes
  out the first entry equal to the match and fails when there is none.\<close>

definition remove_match :: "match \<Rightarrow> matches \<Rightarrow> error + matches" where
  "remove_match m ms =
     (if m \<in> set (items ms) then Inr (ms\<lparr>items := remove1 m (items ms)\<rparr>) else Inl ValueError)"

definition append_match :: "match \<Rightarrow> matches \<Rightarrow> matches" where
  "append_match m ms = ms\<lparr>items := items ms @ [m]\<rparr>"

text \<open>Indexing a list the way Python does: a negative index counts from the end, an
  index out of range raises \<open>IndexError\<close>.\<close>

definition py_index :: "'a list \<Rightarrow> int \<Rightarrow> error + 'a" where
  "py_index xs i =
     (if 0 \<le> i then
        (if nat i < length xs then Inr (xs ! nat i) else Inl IndexError)
      else
        (if nat (- i) \<le> length xs then Inr (xs ! (length xs - nat (- i))) else Inl IndexError))"

section \<open>TitleToEpisodeTitle\<close>

text \<open>The grouping of the titles by value, a \<open>defaultdict(list)\<close> filled in a loop.\<close>

definition group_add :: "(string \<rightharpoonup> match list) \<Rightarrow> match \<Rightarrow> (string \<rightharpoonup> match list)" where
  "group_add g t =
     g(m_value t \<mapsto> (case g (m_value t) of None \<Rightarrow> [] | Some ts \<Rightarrow> ts) @ [t])"

definition title_groups_of :: "match list \<Rightarrow> (string \<rightharpoonup> match list)" where
  "title_groups_of ts = foldl group_add Map.empty ts"

text \<open>The second loop: every title goes to \<open>episode_titles\<close> when the query
  \<open>previous\<close> finds an \<open>episodeNumber\<close> match before it, to \<open>main_titles\<close>
  otherwise.\<close>

fun split_titles ::
  "matches \<Rightarrow> match list \<Rightarrow> match list \<times> match list \<Rightarrow> match list \<times> match list" where
  "split_titles ms [] acc = acc"
| "split_titles ms (t # ts) acc =
     (if previous t (\<lambda>m. m_name m = ''episodeNumber'') ms \<noteq> []
      then split_titles ms ts (fst acc @ [t], snd acc)
      else split_titles ms ts (fst acc, snd acc @ [t]))"

definition TitleToEpisodeTitle_when :: "matches \<Rightarrow> match list option" where
  "TitleToEpisodeTitle_when ms =
     (let titles = named ''title'' ms in
      if length titles < 2 then None
      else
        let title_groups = title_groups_of titles;
            (episode_titles, main_titles) = split_titles ms titles ([], [])
        in if episode_titles \<noteq> [] then Some episode_titles else None)"

fun TitleToEpisodeTitle_then :: "matches \<Rightarrow> match list \<Rightarrow> error + matches" where
  "TitleToEpisodeTitle_then ms [] = Inr ms"
| "TitleToEpisodeTitle_then ms (episode_title # rest) =
     and_then (remove_match episode_title ms) (\<lambda>ms1.
       TitleToEpisodeTitle_then
         (append_match (episode_title\<lparr>m_name := ''episodeTitle''\<rparr>) ms1) rest)"

text \<open>A rule runs its \<open>then\<close> part only on a response of \<open>when\<close>.\<close>

definition TitleToEpisodeTitle :: "matches \<Rightarrow> error + matches" where
  "TitleToEpisodeTitle ms =
     (case TitleToEpisodeTitle_when ms of
        None \<Rightarrow> Inr ms
      | Some when_response \<Rightarrow> TitleToEpisodeTitle_then ms when_response)"


section \<open>EpisodeTitleFromPosition\<close>

text \<open>
  \<open>TitleBaseRule\<close> lives in \<open>guessit.rules.properties.title\<close>. Its own
  \<open>is_ignored\<close> and \<open>should_keep\<close> (reached through \<open>super\<close>) and its
  \<open>when\<close>, the search for a candidate span, which receives the rule object with the
  overridden methods, are taken as parameters. \<open>should_keep\<close> answers with a pair:
  whether the match is kept, and whether the title is cropped.
\<close>

record title_rule =
  match_name :: string
  match_tags :: "string list"
  hole_filter_of :: "match \<Rightarrow> matches \<Rightarrow> bool"
  filepart_filter_of :: "match \<Rightarrow> matches \<Rightarrow> bool"
  is_ignored_of :: "match \<Rightarrow> bool"
  should_keep_of :: "match \<Rightarrow> match list \<Rightarrow> matches \<Rightarrow> match \<Rightarrow> match \<Rightarrow> bool \<times> bool"

record title_base =
  base_is_ignored :: "match \<Rightarrow> bool"
  base_should_keep :: "match \<Rightarrow> match list \<Rightarrow> matches \<Rightarrow> match \<Rightarrow> match \<Rightarrow> bool \<times> bool"
  base_when :: "title_rule \<Rightarrow> matches \<Rightarrow> match option"

text \<open>Modelled from the spec: the consequence of the base positional-title rule, which
  is not part of \<open>episode_title.py\<close>. The rule proposes a text gap as a candidate
  span for its target tag; on a proposal the span is appended to the collection under
  the rule's target tag and secondary tags. There is no failure outcome.\<close>

definition TitleBaseRule_then :: "title_rule \<Rightarrow> matches \<Rightarrow> match \<Rightarrow> error + matches" where
  "TitleBaseRule_then rule ms when_response =
     Inr (append_match (when_response\<lparr>m_name := match_name rule, m_tags := match_tags rule\<rparr>) ms)"

definition episode_anchor_names :: "string list" where
  "episode_anchor_names =
     [''episodeNumber'', ''episodeDetails'', ''episodeCount'', ''season'', ''seasonCount'',
      ''date'', ''title'']"

text \<open>The names of a match without children: its own name.\<close>

definition names :: "match \<Rightarrow> string list" where
  "names m = [m_name m]"

definition has_anchor_name :: "match \<Rightarrow> bool" where
  "has_anchor_name p = (\<exists>n \<in> set episode_anchor_names. n \<in> set (names p))"

definition hole_filter :: "match \<Rightarrow> matches \<Rightarrow> bool" where
  "hole_filter hole ms =
     (let episode = first_of (previous hole has_anchor_name ms);
          crc32 = named ''crc32'' ms
      in episode \<noteq> None \<or> crc32 \<noteq> [])"

definition filepart_filter :: "match \<Rightarrow> matches \<Rightarrow> bool" where
  "filepart_filter filepart ms =
     (if range_matches (m_start filepart) (Some (m_end filepart)) (\<lambda>m. m_name m = ''title'') ms \<noteq> []
      then True else False)"

definition is_ignored :: "title_base \<Rightarrow> match \<Rightarrow> bool" where
  "is_ignored base m = (if m_name m = ''episodeDetails'' then True else base_is_ignored base m)"

definition should_keep ::
  "title_base \<Rightarrow> match \<Rightarrow> match list \<Rightarrow> matches \<Rightarrow> match \<Rightarrow> match \<Rightarrow> bool \<times> bool" where
  "should_keep base m to_keep ms filepart hole =
     (if m_name m = ''episodeDetails'' \<and> previous m (\<lambda>x. m_name x = ''season'') ms = []
      then (True, False)
      else base_should_keep base m to_keep ms filepart hole)"

definition EpisodeTitleFromPosition_self :: "title_base \<Rightarrow> title_rule" where
  "EpisodeTitleFromPosition_self base =
     \<lparr>match_name = ''episodeTitle'', match_tags = [''title''],
      hole_filter_of = hole_filter, filepart_filter_of = filepart_filter,
      is_ignored_of = is_ignored base, should_keep_of = should_keep base\<rparr>"

definition EpisodeTitleFromPosition_when :: "title_base \<Rightarrow> matches \<Rightarrow> match option" where
  "EpisodeTitleFromPosition_when base ms =
     (if named ''episodeTitle'' ms \<noteq> [] then None
      else base_when base (EpisodeTitleFromPosition_self base) ms)"

definition EpisodeTitleFromPosition :: "title_base \<Rightarrow> matches \<Rightarrow> error + matches" where
  "EpisodeTitleFromPosition base ms =
     (case EpisodeTitleFromPosition_when base ms of
        None \<Rightarrow> Inr ms
      | Some when_response \<Rightarrow>
          TitleBaseRule_then (EpisodeTitleFromPosition_self base) ms when_response)"

section \<open>AlternativeTitleReplace\<close>

text \<open>The separator set \<open>seps\<close> of \<open>guessit.rules.common\<close> is a parameter.\<close>

definition AlternativeTitleReplace_when :: "string \<Rightarrow> matches \<Rightarrow> match option" where
  "AlternativeTitleReplace_when seps ms =
     (if named ''episodeTitle'' ms \<noteq> [] then None
      else
        case first_of (range_matches 0 None (\<lambda>m. m_name m = ''alternativeTitle'') ms) of
          None \<Rightarrow> None
        | Some alternative_title \<Rightarrow>
            (case first_of (chain_before (m_start alternative_title) seps
                              (\<lambda>m. ''title'' \<in> set (m_tags m)) ms) of
               None \<Rightarrow> None
             | Some main_title \<Rightarrow>
                 (let episode = first_of (previous main_title has_anchor_name ms);
                      crc32 = named ''crc32'' ms
                  in if episode \<noteq> None \<or> crc32 \<noteq> [] then Some alternative_title else None)))"

definition AlternativeTitleReplace_then :: "matches \<Rightarrow> match \<Rightarrow> error + matches" where
  "AlternativeTitleReplace_then ms when_response =
     and_then (remove_match when_response ms) (\<lambda>ms1.
       Inr (append_match (when_response\<lparr>m_name := ''episodeTitle''\<rparr>) ms1))"

definition AlternativeTitleReplace :: "string \<Rightarrow> matches \<Rightarrow> error + matches" where
  "AlternativeTitleReplace seps ms =
     (case AlternativeTitleReplace_when seps ms of
        None \<Rightarrow> Inr ms
      | Some when_response \<Rightarrow> AlternativeTitleReplace_then ms when_response)"

section \<open>Filepart3EpisodeTitle and Filepart2EpisodeTitle\<close>

text \<open>Modelled from the spec: the consequence \<open>AppendMatch(name)\<close> appends the
  response of \<open>when\<close> to the collection as a new match with that name.\<close>

definition AppendMatch :: "string \<Rightarrow> matches \<Rightarrow> match \<Rightarrow> matches" where
  "AppendMatch n ms when_response = append_match (when_response\<lparr>m_name := n\<rparr>) ms"

text \<open>The formatter \<open>cleanup\<close> and the separator set \<open>title_seps\<close> of
  \<open>guessit.rules.common\<close> are parameters.\<close>

definition Filepart3EpisodeTitle_when ::
  "(string \<Rightarrow> string) \<Rightarrow> string \<Rightarrow> matches \<Rightarrow> error + match option" where
  "Filepart3EpisodeTitle_when cleanup title_seps ms =
     (let fileparts = markers_named ''path'' ms in
      if length fileparts < 3 then Inr None
      else
        and_then (py_index fileparts (- 1)) (\<lambda>filename.
        and_then (py_index fileparts (- 2)) (\<lambda>directory.
        and_then (py_index fileparts (- 3)) (\<lambda>subdirectory.
          (case first_of (range_matches (m_start filename) (Some (m_end filename))
                            (\<lambda>m. m_name m = ''episodeNumber'') ms) of
             None \<Rightarrow> Inr None
           | Some episode_number \<Rightarrow>
               (case first_of (range_matches (m_start directory) (Some (m_end directory))
                                 (\<lambda>m. m_name m = ''season'') ms) of
                  None \<Rightarrow> Inr None
                | Some season \<Rightarrow>
                    Inr (first_of (holes (m_start subdirectory) (m_end subdirectory)
                                     cleanup title_seps (\<lambda>m. m_value m \<noteq> []) ms))))))))"

definition Filepart3EpisodeTitle ::
  "(string \<Rightarrow> string) \<Rightarrow> string \<Rightarrow> matches \<Rightarrow> error + matches" where
  "Filepart3EpisodeTitle cleanup title_seps ms =
     and_then (Filepart3EpisodeTitle_when cleanup title_seps ms) (\<lambda>when_response.
       case when_response of
         None \<Rightarrow> Inr ms
       | Some hole \<Rightarrow> Inr (AppendMatch ''title'' ms hole))"

definition Filepart2EpisodeTitle_when ::
  "(string \<Rightarrow> string) \<Rightarrow> string \<Rightarrow> matches \<Rightarrow> error + match option" where
  "Filepart2EpisodeTitle_when cleanup title_seps ms =
     (let fileparts = markers_named ''path'' ms in
      if length fileparts < 2 then Inr None
      else
        and_then (py_index fileparts (- 1)) (\<lambda>filename.
        and_then (py_index fileparts (- 2)) (\<lambda>directory.
          (case first_of (range_matches (m_start filename) (Some (m_end filename))
                            (\<lambda>m. m_name m = ''episodeNumber'') ms) of
             None \<Rightarrow> Inr None
           | Some episode_number \<Rightarrow>
               (case first_of (range_matches (m_start directory) (Some (m_end directory))
                                 (\<lambda>m. m_name m = ''season'') ms) of
                  None \<Rightarrow> Inr None
                | Some season \<Rightarrow>
                    Inr (first_of (holes (m_start directory) (m_end directory)
                                     cleanup title_seps (\<lambda>m. m_value m \<noteq> []) ms)))))))"

definition Filepart2EpisodeTitle ::
  "(string \<Rightarrow> string) \<Rightarrow> string \<Rightarrow> matches \<Rightarrow> error + matches" where
  "Filepart2EpisodeTitle cleanup title_seps ms =
     and_then (Filepart2EpisodeTitle_when cleanup title_seps ms) (\<lambda>when_response.
       case when_response of
         None \<Rightarrow> Inr ms
       | Some hole \<Rightarrow> Inr (AppendMatch ''title'' ms hole))"

section \<open>The ensemble\<close>

text \<open>The rules run one after the other on the shared collection; an error of one
  rule ends the run. The chain follows the declared dependencies:
  \<open>TitleToEpisodeTitle\<close>, then \<open>EpisodeTitleFromPosition\<close>, then
  \<open>AlternativeTitleReplace\<close>. The two path rules depend on none of them; they are
  placed first here.\<close>

definition title_chain :: "title_base \<Rightarrow> string \<Rightarrow> matches \<Rightarrow> error + matches" where
  "title_chain base seps ms =
     and_then (and_then (TitleToEpisodeTitle ms) (EpisodeTitleFromPosition base))
       (AlternativeTitleReplace seps)"

definition EPISODE_TITLE ::
  "title_base \<Rightarrow> (string \<Rightarrow> string) \<Rightarrow> string \<Rightarrow> string \<Rightarrow> matches \<Rightarrow> error + matches" where
  "EPISODE_TITLE base cleanup seps title_seps ms =
     and_then (and_then (Filepart3EpisodeTitle cleanup title_seps ms)
                 (Filepart2EpisodeTitle cleanup title_seps))
       (title_chain base seps)"

section \<open>The properties in the specification's terms\<close>

text \<open>A match \<open>p\<close> of the collection immediately precedes the span \<open>t\<close> when it
  ends at or before the start of \<open>t\<close> and no match of the collection ends later than
  \<open>p\<close> and still at or before the start of \<open>t\<close>.\<close>

definition immediately_precedes :: "matches \<Rightarrow> match \<Rightarrow> match \<Rightarrow> bool" where
  "immediately_precedes ms p t =
     (p \<in> set (items ms) \<and> m_end p \<le> m_start t \<and>
      (\<forall>x \<in> set (items ms). m_end x \<le> m_start t \<longrightarrow> m_end x \<le> m_end p))"

definition follows_tag :: "string \<Rightarrow> matches \<Rightarrow> match \<Rightarrow> bool" where
  "follows_tag n ms t = (\<exists>p \<in> set (items ms). immediately_precedes ms p t \<and> m_name p = n)"

definition follows_anchor :: "matches \<Rightarrow> match \<Rightarrow> bool" where
  "follows_anchor ms t = (\<exists>n \<in> set episode_anchor_names. follows_tag n ms t)"

definition has_named :: "string \<Rightarrow> matches \<Rightarrow> bool" where
  "has_named n ms = (\<exists>m \<in> set (items ms). m_name m = n)"

text \<open>Retagging one match: the entry leaves the collection and comes back at the end
  under the new name.\<close>

definition retag :: "match \<Rightarrow> string \<Rightarrow> matches \<Rightarrow> matches" where
  "retag m n ms = ms\<lparr>items := remove1 m (items ms) @ [m\<lparr>m_name := n\<rparr>]\<rparr>"

text \<open>Retagging every title that follows an episode number, the others staying where
  they are.\<close>

definition retag_following :: "matches \<Rightarrow> matches" where
  "retag_following ms =
     ms\<lparr>items :=
          filter (\<lambda>m. \<not> (m_name m = ''title'' \<and> follows_tag ''episodeNumber'' ms m)) (items ms)
          @ map (\<lambda>m. m\<lparr>m_name := ''episodeTitle''\<rparr>)
              (filter (follows_tag ''episodeNumber'' ms) (named ''title'' ms))\<rparr>"

text \<open>An alternative title can be promoted when the chain before its start reaches a
  main title, and that main title follows an episode anchor or a \<open>crc32\<close> match
  exists.\<close>

definition promotable :: "string \<Rightarrow> matches \<Rightarrow> match \<Rightarrow> bool" where
  "promotable seps ms a =
     (case first_of (chain_before (m_start a) seps (\<lambda>m. ''title'' \<in> set (m_tags m)) ms) of
        None \<Rightarrow> False
      | Some main_title \<Rightarrow> follows_anchor ms main_title \<or> has_named ''crc32'' ms)"

definition segment_contains :: "string \<Rightarrow> match \<Rightarrow> matches \<Rightarrow> bool" where
  "segment_contains n seg ms =
     (\<exists>m \<in> set (items ms). m_name m = n \<and> m_start seg \<le> m_start m \<and> m_end m \<le> m_end seg)"

definition nonempty_holes :: "(string \<Rightarrow> string) \<Rightarrow> string \<Rightarrow> match \<Rightarrow> matches \<Rightarrow> match list" where
  "nonempty_holes cleanup title_seps seg ms =
     holes (m_start seg) (m_end seg) cleanup title_seps (\<lambda>h. m_value h \<noteq> []) ms"

text \<open>The conditions under which the two path rules append a title.\<close>

definition fires3 :: "(string \<Rightarrow> string) \<Rightarrow> string \<Rightarrow> matches \<Rightarrow> bool" where
  "fires3 cleanup title_seps ms =
     (let fileparts = markers_named ''path'' ms; n = length fileparts in
      3 \<le> n \<and> segment_contains ''episodeNumber'' (fileparts ! (n - 1)) ms
      \<and> segment_contains ''season'' (fileparts ! (n - 2)) ms
      \<and> nonempty_holes cleanup title_seps (fileparts ! (n - 3)) ms \<noteq> [])"

definition fires2 :: "(string \<Rightarrow> string) \<Rightarrow> string \<Rightarrow> matches \<Rightarrow> bool" where
  "fires2 cleanup title_seps ms =
     (let fileparts = markers_named ''path'' ms; n = length fileparts in
      2 \<le> n \<and> segment_contains ''episodeNumber'' (fileparts ! (n - 1)) ms
      \<and> segment_contains ''season'' (fileparts ! (n - 2)) ms
      \<and> nonempty_holes cleanup title_seps (fileparts ! (n - 2)) ms \<noteq> [])"

definition subdirectory_of :: "matches \<Rightarrow> match" where
  "subdirectory_of ms = markers_named ''path'' ms ! (length (markers_named ''path'' ms) - 3)"

definition directory_of :: "matches \<Rightarrow> match" where
  "directory_of ms = markers_named ''path'' ms ! (length (markers_named ''path'' ms) - 2)"

text \<open>The hole filter as the specification words it: the nearest preceding match is
  looked for among the matches of the path segment that holds the hole.\<close>

definition in_segment :: "match \<Rightarrow> match \<Rightarrow> bool" where
  "in_segment seg m = (m_start seg \<le> m_start m \<and> m_end m \<le> m_end seg)"

definition follows_anchor_in_segment :: "matches \<Rightarrow> match \<Rightarrow> bool" where
  "follows_anchor_in_segment ms hole =
     (\<exists>seg \<in> set (markers_named ''path'' ms). in_segment seg hole \<and>
        (\<exists>p \<in> set (items ms). in_segment seg p \<and> m_end p \<le> m_start hole \<and>
           (\<forall>x \<in> set (items ms). in_segment seg x \<and> m_end x \<le> m_start hole \<longrightarrow> m_end x \<le> m_end p) \<and>
           has_anchor_name p))"

definition hole_filter_in_segment :: "match \<Rightarrow> matches \<Rightarrow> bool" where
  "hole_filter_in_segment hole ms = (follows_anchor_in_segment ms hole \<or> has_named ''crc32'' ms)"


text \<open>\<open>TitleToEpisodeTitle\<close> with the grouping of the titles by value taken out, and
  the rewriting of every value of a collection.\<close>

definition TitleToEpisodeTitle_when_ungrouped :: "matches \<Rightarrow> match list option" where
  "TitleToEpisodeTitle_when_ungrouped ms =
     (let titles = named ''title'' ms in
      if length titles < 2 then None
      else
        let (episode_titles, main_titles) = split_titles ms titles ([], [])
        in if episode_titles \<noteq> [] then Some episode_titles else None)"

definition TitleToEpisodeTitle_ungrouped :: "matches \<Rightarrow> error + matches" where
  "TitleToEpisodeTitle_ungrouped ms =
     (case TitleToEpisodeTitle_when_ungrouped ms of
        None \<Rightarrow> Inr ms
      | Some when_response \<Rightarrow> TitleToEpisodeTitle_then ms when_response)"

definition map_values :: "(string \<Rightarrow> string) \<Rightarrow> matches \<Rightarrow> matches" where
  "map_values f ms = ms\<lparr>items := map (\<lambda>m. m\<lparr>m_value := f (m_value m)\<rparr>) (items ms)\<rparr>"

text \<open>The reading of the preceding match as adjacent: the gap between the two holds
  separators only.\<close>

definition separator_gap :: "string \<Rightarrow> matches \<Rightarrow> match \<Rightarrow> match \<Rightarrow> bool" where
  "separator_gap seps ms p t =
     (\<forall>i \<in> set [m_end p ..< m_start t]. sep_at seps (input_string ms) i)"

definition follows_tag_across_separators ::
  "string \<Rightarrow> string \<Rightarrow> matches \<Rightarrow> match \<Rightarrow> bool" where
  "follows_tag_across_separators seps n ms t =
     (\<exists>p \<in> set (items ms).
        immediately_precedes ms p t \<and> m_name p = n \<and> separator_gap seps ms p t)"


section \<open>Example collections\<close>

definition mk :: "string \<Rightarrow> string list \<Rightarrow> string \<Rightarrow> nat \<Rightarrow> nat \<Rightarrow> match" where
  "mk n ts v s e = \<lparr>m_name = n, m_tags = ts, m_value = v, m_start = s, m_end = e\<rparr>"

definition ex_seps :: string where
  "ex_seps = '' -_./''"

definition ex_title_seps :: string where
  "ex_title_seps = ''-+/|''"

definition ex_titles :: matches where
  "ex_titles =
     \<lparr>items = [mk ''title'' [] ''A'' 0 1, mk ''episodeNumber'' [] ''5'' 2 3, mk ''title'' [] ''B'' 4 5],
      markers = [mk ''path'' [] ''A 5 B'' 0 5], input_string = ''A 5 B''\<rparr>"

definition ex_alt :: matches where
  "ex_alt =
     \<lparr>items = [mk ''season'' [] ''1'' 0 2, mk ''title'' [''title''] ''Show'' 3 7,
               mk ''alternativeTitle'' [''title''] ''Alt'' 10 13],
      markers = [mk ''path'' [] ''S1 Show - Alt'' 0 13],
      input_string = ''S1 Show - Alt''\<rparr>"

definition ex_alt_unanchored :: matches where
  "ex_alt_unanchored =
     \<lparr>items = [mk ''title'' [''title''] ''Show'' 0 4,
               mk ''alternativeTitle'' [''title''] ''Alt'' 7 10],
      markers = [mk ''path'' [] ''Show - Alt'' 0 10],
      input_string = ''Show - Alt''\<rparr>"

text \<open>Two titles, unmatched text between the episode number and the second.\<close>

definition ex_gap_text :: matches where
  "ex_gap_text =
     \<lparr>items = [mk ''title'' [] ''A'' 0 1, mk ''episodeNumber'' [] ''5'' 2 3, mk ''title'' [] ''B'' 7 8],
      markers = [mk ''path'' [] ''A 5 xx B'' 0 8], input_string = ''A 5 xx B''\<rparr>"

definition ex_gap_text_after :: matches where
  "ex_gap_text_after =
     ex_gap_text\<lparr>items := [mk ''title'' [] ''A'' 0 1, mk ''episodeNumber'' [] ''5'' 2 3,
                             mk ''episodeTitle'' [] ''B'' 7 8]\<rparr>"





definition ex_path3 :: matches where
  "ex_path3 =
     \<lparr>items = [mk ''season'' [] ''1'' 10 18, mk ''episodeNumber'' [] ''2'' 32 35],
      markers = [mk ''path'' [] ''Show Name'' 0 9, mk ''path'' [] ''Season 1'' 10 18,
                 mk ''path'' [] ''Show Name S01E02.ext'' 19 39],
      input_string = ''Show Name/Season 1/Show Name S01E02.ext''\<rparr>"

definition ex_path2 :: matches where
  "ex_path2 =
     \<lparr>items = [mk ''season'' [] ''1'' 10 13, mk ''episodeNumber'' [] ''2'' 14 17],
      markers = [mk ''path'' [] ''Show Name S01'' 0 13, mk ''path'' [] ''E02.ext'' 14 21],
      input_string = ''Show Name S01/E02.ext''\<rparr>"


definition ex_alt_after :: matches where
  "ex_alt_after =
     ex_alt\<lparr>items := [mk ''season'' [] ''1'' 0 2, mk ''title'' [''title''] ''Show'' 3 7,
                        mk ''episodeTitle'' [''title''] ''Alt'' 10 13]\<rparr>"

text \<open>Two path segments, an episode number in the first, a hole at the start of the
  second.\<close>

definition ex_segments :: matches where
  "ex_segments =
     \<lparr>items = [mk ''episodeNumber'' [] ''2'' 0 3, mk ''title'' [] ''Show'' 8 12],
      markers = [mk ''path'' [] ''E02'' 0 3, mk ''path'' [] ''Foo Show'' 4 12],
      input_string = ''E02/Foo Show''\<rparr>"

definition ex_hole :: match where
  "ex_hole = mk [] [] ''Foo'' 4 7"

text \<open>Two titles, each right after an episode number.\<close>

definition ex_two_episodes :: matches where
  "ex_two_episodes =
     \<lparr>items = [mk ''episodeNumber'' [] ''1'' 0 1, mk ''title'' [] ''A'' 2 3,
               mk ''episodeNumber'' [] ''2'' 4 5, mk ''title'' [] ''B'' 6 7],
      markers = [mk ''path'' [] ''1 A 2 B'' 0 7], input_string = ''1 A 2 B''\<rparr>"

definition ex_two_episodes_after :: matches where
  "ex_two_episodes_after =
     ex_two_episodes\<lparr>items := [mk ''episodeNumber'' [] ''1'' 0 1, mk ''episodeNumber'' [] ''2'' 4 5,
                                 mk ''episodeTitle'' [] ''A'' 2 3, mk ''episodeTitle'' [] ''B'' 6 7]\<rparr>"

text \<open>A stand-in for the base rule's search in the examples: it proposes the first
  non-empty hole of an eligible path segment that the hole filter accepts; its own
  policies ignore nothing and keep nothing.\<close>

definition ex_base :: title_base where
  "ex_base =
     \<lparr>base_is_ignored = (\<lambda>m. False),
      base_should_keep = (\<lambda>m to_keep ms filepart hole. (False, False)),
      base_when = (\<lambda>rule ms.
         first_of (filter (\<lambda>h. hole_filter_of rule h ms)
           (concat (map (\<lambda>fp. holes (m_start fp) (m_end fp) id ex_seps (\<lambda>h. m_value h \<noteq> []) ms)
              (filter (\<lambda>fp. filepart_filter_of rule fp ms) (markers_named ''path'' ms))))))\<rparr>"





section \<open>Facts about the query surface\<close>

lemma set_nearest_ending:
  "set (nearest_ending p ms) =
     {m \<in> set (items ms). m_end m \<le> p \<and> (\<forall>x \<in> set (items ms). m_end x \<le> p \<longrightarrow> m_end x \<le> m_end m)}"
proof (induction p)
  case 0
  show ?case by (auto simp: ending_def)
next
  case (Suc p)
  show ?case
  proof (cases "ending (Suc p) ms = []")
    case True
    then have none: "\<forall>x \<in> set (items ms). m_end x \<noteq> Suc p"
      by (auto simp: ending_def filter_empty_conv)
    then have le: "\<And>x. x \<in> set (items ms) \<Longrightarrow> (m_end x \<le> Suc p) = (m_end x \<le> p)"
      by (metis le_Suc_eq)
    show ?thesis using True Suc le by auto
  next
    case False
    then obtain y where y: "y \<in> set (items ms)" "m_end y = Suc p"
      by (auto simp: ending_def filter_empty_conv)
    show ?thesis using False y by (auto simp: ending_def)
  qed
qed

lemma previous_nonempty_iff:
  "previous t (\<lambda>m. m_name m = n) ms \<noteq> [] \<longleftrightarrow> follows_tag n ms t"
proof -
  have "previous t (\<lambda>m. m_name m = n) ms \<noteq> [] \<longleftrightarrow>
        (\<exists>p \<in> set (nearest_ending (m_start t) ms). m_name p = n)"
    by (auto simp: previous_def filter_empty_conv)
  then show ?thesis
    by (auto simp: set_nearest_ending follows_tag_def immediately_precedes_def)
qed

lemma first_of_eq_None: "first_of xs = None \<longleftrightarrow> xs = []"
  by (simp add: first_of_def split: list.splits)

lemma first_of_SomeD: "first_of xs = Some x \<Longrightarrow> x \<in> set xs"
  by (auto simp: first_of_def split: list.splits)

lemma previous_anchor_iff:
  "first_of (previous t has_anchor_name ms) \<noteq> None \<longleftrightarrow> follows_anchor ms t"
proof -
  have "first_of (previous t has_anchor_name ms) \<noteq> None \<longleftrightarrow>
        (\<exists>p \<in> set (nearest_ending (m_start t) ms). has_anchor_name p)"
    by (auto simp: first_of_eq_None previous_def filter_empty_conv)
  also have "\<dots> \<longleftrightarrow> (\<exists>n \<in> set episode_anchor_names. \<exists>p \<in> set (nearest_ending (m_start t) ms). m_name p = n)"
    by (auto simp: has_anchor_name_def names_def)
  also have "\<dots> \<longleftrightarrow> follows_anchor ms t"
    by (auto simp: set_nearest_ending follows_anchor_def follows_tag_def immediately_precedes_def)
  finally show ?thesis .
qed

lemma set_named: "set (named n ms) = {m \<in> set (items ms). m_name m = n}"
  by (simp add: named_def named_in_def doc_order_def)

lemma mset_named: "mset (named n ms) = filter_mset (\<lambda>m. m_name m = n) (mset (items ms))"
  by (simp add: named_def named_in_def doc_order_def)

lemma named_nonempty_iff: "named n ms \<noteq> [] \<longleftrightarrow> has_named n ms"
proof -
  have "named n ms \<noteq> [] \<longleftrightarrow> set (named n ms) \<noteq> {}" by simp
  then show ?thesis unfolding set_named has_named_def by auto
qed

lemma range_all_named: "range_matches 0 None (\<lambda>m. m_name m = n) ms = named n ms"
  by (simp add: range_matches_def named_def named_in_def doc_order_def filter_sort)

lemma AlternativeTitleReplace_then_retag:
  "a \<in> set (items ms) \<Longrightarrow> AlternativeTitleReplace_then ms a = Inr (retag a ''episodeTitle'' ms)"
  by (simp add: AlternativeTitleReplace_then_def remove_match_def append_match_def and_then_def retag_def)

lemma AlternativeTitleReplace_char:
  "AlternativeTitleReplace seps ms =
     Inr (if has_named ''episodeTitle'' ms then ms
          else case first_of (named ''alternativeTitle'' ms) of
                 None \<Rightarrow> ms
               | Some a \<Rightarrow> if promotable seps ms a then retag a ''episodeTitle'' ms else ms)"
proof (cases "has_named ''episodeTitle'' ms")
  case True
  then show ?thesis
    by (simp add: AlternativeTitleReplace_def AlternativeTitleReplace_when_def named_nonempty_iff)
next
  case noep: False
  show ?thesis
  proof (cases "first_of (named ''alternativeTitle'' ms)")
    case None
    then show ?thesis using noep
      by (simp add: AlternativeTitleReplace_def AlternativeTitleReplace_when_def
          named_nonempty_iff range_all_named)
  next
    case (Some a)
    then have ain: "a \<in> set (items ms)"
      using first_of_SomeD set_named by fastforce
    show ?thesis
    proof (cases "first_of (chain_before (m_start a) seps (\<lambda>m. ''title'' \<in> set (m_tags m)) ms)")
      case None
      then show ?thesis using noep Some
        by (simp add: AlternativeTitleReplace_def AlternativeTitleReplace_when_def
            named_nonempty_iff range_all_named promotable_def)
    next
      case (Some mt)
      have "(first_of (previous mt has_anchor_name ms) \<noteq> None \<or> named ''crc32'' ms \<noteq> []) =
            (follows_anchor ms mt \<or> has_named ''crc32'' ms)"
        by (simp only: previous_anchor_iff named_nonempty_iff)
      then show ?thesis using noep \<open>first_of (named ''alternativeTitle'' ms) = Some a\<close> Some ain
        by (simp add: AlternativeTitleReplace_def AlternativeTitleReplace_when_def
            named_nonempty_iff range_all_named promotable_def Let_def
            AlternativeTitleReplace_then_retag)
    qed
  qed
qed

lemma retag_changes:
  assumes "\<not> has_named n ms"
  shows "retag a n ms \<noteq> ms"
proof
  assume eq: "retag a n ms = ms"
  have "items (retag a n ms) = remove1 a (items ms) @ [a\<lparr>m_name := n\<rparr>]"
    by (simp add: retag_def)
  moreover have "a\<lparr>m_name := n\<rparr> \<in> set (remove1 a (items ms) @ [a\<lparr>m_name := n\<rparr>])"
    by simp
  ultimately have "a\<lparr>m_name := n\<rparr> \<in> set (items (retag a n ms))"
    by simp
  then have "a\<lparr>m_name := n\<rparr> \<in> set (items ms)"
    unfolding eq .
  then show False using assms by (auto simp: has_named_def)
qed

text \<open>A hole lies in the scanned range and covers no offset that a match covers.\<close>

lemma hole_spans_sound:
  assumes "(a, b) \<in> set (hole_spans cov opn e [k ..< e])" "k \<le> e"
    and "\<And>s. opn = Some s \<Longrightarrow> s \<le> k \<and> (\<forall>i. s \<le> i \<and> i < k \<longrightarrow> \<not> cov i)"
  shows "(case opn of None \<Rightarrow> k | Some s \<Rightarrow> s) \<le> a \<and> a \<le> b \<and> b \<le> e \<and>
         (\<forall>i. a \<le> i \<and> i < b \<longrightarrow> \<not> cov i)"
  using assms
proof (induction "e - k" arbitrary: k opn)
  case 0
  then have "k = e" by simp
  with 0 show ?case by (cases opn) auto
next
  case (Suc n)
  then have lt: "k < e" by simp
  then have up: "[k ..< e] = k # [Suc k ..< e]" by (simp add: upt_conv_Cons)
  have n: "n = e - Suc k" using Suc.hyps(2) by simp
  show ?case
  proof (cases "cov k")
    case True
    show ?thesis
    proof (cases opn)
      case None
      with Suc.prems(1) True up have "(a, b) \<in> set (hole_spans cov None e [Suc k ..< e])" by simp
      from Suc.hyps(1) [OF n this] lt None show ?thesis by auto
    next
      case (Some s)
      with Suc.prems(1) True up
      consider "(a, b) = (s, k)" | "(a, b) \<in> set (hole_spans cov None e [Suc k ..< e])" by auto
      then show ?thesis
      proof cases
        case 1
        then show ?thesis using Suc.prems(3) [OF Some] lt Some by auto
      next
        case 2
        from Suc.hyps(1) [OF n 2] lt Some Suc.prems(3) [OF Some] show ?thesis by auto
      qed
    qed
  next
    case False
    show ?thesis
    proof (cases opn)
      case None
      with Suc.prems(1) False up have m: "(a, b) \<in> set (hole_spans cov (Some k) e [Suc k ..< e])" by simp
      have "\<And>s. Some k = Some s \<Longrightarrow> s \<le> Suc k \<and> (\<forall>i. s \<le> i \<and> i < Suc k \<longrightarrow> \<not> cov i)"
        using False by (auto simp: less_Suc_eq)
      from Suc.hyps(1) [OF n m _ this] lt None show ?thesis by auto
    next
      case (Some s)
      with Suc.prems(1) False up have m: "(a, b) \<in> set (hole_spans cov (Some s) e [Suc k ..< e])" by simp
      have "\<And>s'. Some s = Some s' \<Longrightarrow> s' \<le> Suc k \<and> (\<forall>i. s' \<le> i \<and> i < Suc k \<longrightarrow> \<not> cov i)"
        using False Suc.prems(3) [OF Some] by (auto simp: less_Suc_eq)
      from Suc.hyps(1) [OF n m _ this] lt Some show ?thesis by auto
    qed
  qed
qed

lemma trim_left_bounds: "a \<le> trim_left seps s a k \<and> trim_left seps s a k \<le> a + k"
proof (induction k arbitrary: a)
  case 0
  show ?case by simp
next
  case (Suc k)
  show ?case
  proof (cases "sep_at seps s a")
    case True
    with Suc [of "Suc a"] show ?thesis by simp
  next
    case False
    then show ?thesis by simp
  qed
qed

lemma trim_right_bounds: "a \<le> trim_right seps s a k \<and> trim_right seps s a k \<le> a + k"
  by (induction k) auto

lemma trim_span_bounds:
  assumes "fst se \<le> snd se"
  shows "fst se \<le> fst (trim_span seps s se) \<and> fst (trim_span seps s se) \<le> snd (trim_span seps s se)
         \<and> snd (trim_span seps s se) \<le> snd se"
proof -
  let ?a = "trim_left seps s (fst se) (snd se - fst se)"
  have a: "fst se \<le> ?a \<and> ?a \<le> snd se"
    using trim_left_bounds [of "fst se" seps s "snd se - fst se"] assms by simp
  have "?a \<le> trim_right seps s ?a (snd se - ?a) \<and> trim_right seps s ?a (snd se - ?a) \<le> snd se"
    using trim_right_bounds [of ?a seps s "snd se - ?a"] a by simp
  with a show ?thesis by (simp add: trim_span_def Let_def)
qed

lemma holes_sound:
  assumes "h \<in> set (holes s e formatter seps P ms)"
  shows "s \<le> m_start h \<and> m_start h \<le> m_end h \<and> m_end h \<le> e \<and>
         (\<forall>i. m_start h \<le> i \<and> i < m_end h \<longrightarrow> \<not> covered ms i) \<and> P h"
proof -
  let ?e = "min e (length (input_string ms))"
  from assms obtain se where se: "se \<in> set (hole_spans (covered ms) None ?e [s ..< ?e])"
    and h: "h = hole_match formatter (input_string ms) (trim_span seps (input_string ms) se)"
    and P: "P h"
    by (auto simp: holes_def Let_def)
  have ne: "s \<le> ?e"
  proof (rule ccontr)
    assume "\<not> s \<le> ?e"
    then have "?e \<le> s" by linarith
    then have "[s ..< ?e] = []" by (rule upt_conv_Nil)
    with se show False by simp
  qed
  have "(fst se, snd se) \<in> set (hole_spans (covered ms) None ?e [s ..< ?e])" using se by simp
  from hole_spans_sound [OF this ne]
  have b: "s \<le> fst se" "fst se \<le> snd se" "snd se \<le> ?e"
    "\<forall>i. fst se \<le> i \<and> i < snd se \<longrightarrow> \<not> covered ms i" by auto
  from trim_span_bounds [OF b(2), of seps "input_string ms"] b P
  show ?thesis unfolding h by (auto simp: hole_match_def)
qed

lemma py_index_neg:
  "0 < k \<Longrightarrow> k \<le> length xs \<Longrightarrow> py_index xs (- int k) = Inr (xs ! (length xs - k))"
  by (simp add: py_index_def)

lemma range_first_None_iff:
  "first_of (range_matches (m_start seg) (Some (m_end seg)) (\<lambda>m. m_name m = n) ms) = None
     \<longleftrightarrow> \<not> segment_contains n seg ms"
proof -
  have "range_matches (m_start seg) (Some (m_end seg)) (\<lambda>m. m_name m = n) ms = [] \<longleftrightarrow>
        (\<forall>m \<in> set (items ms). \<not> (m_start seg \<le> m_start m \<and> m_end m \<le> m_end seg \<and> m_name m = n))"
    by (simp add: range_matches_def doc_order_def filter_empty_conv)
  then show ?thesis
    by (auto simp: first_of_eq_None segment_contains_def)
qed

lemma range_case:
  "(case first_of (range_matches (m_start seg) (Some (m_end seg)) (\<lambda>m. m_name m = n) ms) of
      None \<Rightarrow> a | Some x \<Rightarrow> b) = (if segment_contains n seg ms then b else a)"
  using range_first_None_iff [of seg n ms]
  by (cases "first_of (range_matches (m_start seg) (Some (m_end seg)) (\<lambda>m. m_name m = n) ms)") auto

lemma first_of_hd: "xs \<noteq> [] \<Longrightarrow> first_of xs = Some (hd xs)"
  by (cases xs) (simp_all add: first_of_def)

lemma Filepart3EpisodeTitle_char:
  "Filepart3EpisodeTitle cleanup title_seps ms =
     Inr (let fileparts = markers_named ''path'' ms; n = length fileparts in
          if 3 \<le> n \<and> segment_contains ''episodeNumber'' (fileparts ! (n - 1)) ms
             \<and> segment_contains ''season'' (fileparts ! (n - 2)) ms
             \<and> nonempty_holes cleanup title_seps (fileparts ! (n - 3)) ms \<noteq> []
          then ms\<lparr>items := items ms @
                 [(hd (nonempty_holes cleanup title_seps (fileparts ! (n - 3)) ms))\<lparr>m_name := ''title''\<rparr>]\<rparr>
          else ms)"
proof (cases "length (markers_named ''path'' ms) < 3")
  case True
  then show ?thesis
    by (simp add: Filepart3EpisodeTitle_def Filepart3EpisodeTitle_when_def and_then_def Let_def)
next
  case False
  let ?fp = "markers_named ''path'' ms"
  let ?n = "length ?fp"
  from False have n3: "3 \<le> ?n" by simp
  have i1: "py_index ?fp (- 1) = Inr (?fp ! (?n - 1))"
    using py_index_neg [of 1 ?fp] n3 by simp
  have i2: "py_index ?fp (- 2) = Inr (?fp ! (?n - 2))"
    using py_index_neg [of 2 ?fp] n3 by simp
  have i3: "py_index ?fp (- 3) = Inr (?fp ! (?n - 3))"
    using py_index_neg [of 3 ?fp] n3 by simp
  have when_eq: "Filepart3EpisodeTitle_when cleanup title_seps ms =
      Inr (if segment_contains ''episodeNumber'' (?fp ! (?n - 1)) ms
              \<and> segment_contains ''season'' (?fp ! (?n - 2)) ms
           then first_of (nonempty_holes cleanup title_seps (?fp ! (?n - 3)) ms) else None)"
    using False
    by (simp add: Filepart3EpisodeTitle_when_def Let_def i1 i2 i3 and_then_def nonempty_holes_def
        range_case)
  show ?thesis
  proof (cases "nonempty_holes cleanup title_seps (?fp ! (?n - 3)) ms = []")
    case True
    then show ?thesis using n3
      by (simp add: Filepart3EpisodeTitle_def when_eq and_then_def Let_def first_of_def)
  next
    case False
    then show ?thesis using n3
      by (simp add: Filepart3EpisodeTitle_def when_eq and_then_def Let_def first_of_hd
          AppendMatch_def append_match_def)
  qed
qed

lemma Filepart2EpisodeTitle_char:
  "Filepart2EpisodeTitle cleanup title_seps ms =
     Inr (let fileparts = markers_named ''path'' ms; n = length fileparts in
          if 2 \<le> n \<and> segment_contains ''episodeNumber'' (fileparts ! (n - 1)) ms
             \<and> segment_contains ''season'' (fileparts ! (n - 2)) ms
             \<and> nonempty_holes cleanup title_seps (fileparts ! (n - 2)) ms \<noteq> []
          then ms\<lparr>items := items ms @
                 [(hd (nonempty_holes cleanup title_seps (fileparts ! (n - 2)) ms))\<lparr>m_name := ''title''\<rparr>]\<rparr>
          else ms)"
proof (cases "length (markers_named ''path'' ms) < 2")
  case True
  then show ?thesis
    by (simp add: Filepart2EpisodeTitle_def Filepart2EpisodeTitle_when_def and_then_def Let_def)
next
  case False
  let ?fp = "markers_named ''path'' ms"
  let ?n = "length ?fp"
  from False have n2: "2 \<le> ?n" by simp
  have i1: "py_index ?fp (- 1) = Inr (?fp ! (?n - 1))"
    using py_index_neg [of 1 ?fp] n2 by simp
  have i2: "py_index ?fp (- 2) = Inr (?fp ! (?n - 2))"
    using py_index_neg [of 2 ?fp] n2 by simp
  have when_eq: "Filepart2EpisodeTitle_when cleanup title_seps ms =
      Inr (if segment_contains ''episodeNumber'' (?fp ! (?n - 1)) ms
              \<and> segment_contains ''season'' (?fp ! (?n - 2)) ms
           then first_of (nonempty_holes cleanup title_seps (?fp ! (?n - 2)) ms) else None)"
    using False
    by (simp add: Filepart2EpisodeTitle_when_def Let_def i1 i2 and_then_def nonempty_holes_def
        range_case)
  show ?thesis
  proof (cases "nonempty_holes cleanup title_seps (?fp ! (?n - 2)) ms = []")
    case True
    then show ?thesis using n2
      by (simp add: Filepart2EpisodeTitle_def when_eq and_then_def Let_def first_of_def)
  next
    case False
    then show ?thesis using n2
      by (simp add: Filepart2EpisodeTitle_def when_eq and_then_def Let_def first_of_hd
          AppendMatch_def append_match_def)
  qed
qed

section \<open>Facts about the rules\<close>

lemma split_titles_eq:
  "split_titles ms ts acc =
     (fst acc @ filter (follows_tag ''episodeNumber'' ms) ts,
      snd acc @ filter (\<lambda>t. \<not> follows_tag ''episodeNumber'' ms t) ts)"
  by (induction ts arbitrary: acc) (simp_all add: previous_nonempty_iff)

lemma then_general:
  "mset ts \<subseteq># mset xs \<Longrightarrow>
   TitleToEpisodeTitle_then (ms\<lparr>items := xs @ app\<rparr>) ts =
     Inr (ms\<lparr>items := fold remove1 ts xs @ app @ map (\<lambda>m. m\<lparr>m_name := ''episodeTitle''\<rparr>) ts\<rparr>)"
proof (induction ts arbitrary: xs app)
  case Nil
  then show ?case by simp
next
  case (Cons t ts)
  from Cons.prems have t: "t \<in> set xs"
    by (metis mset_subset_eq_insertD set_mset_mset mset.simps(2))
  from Cons.prems have sub: "mset ts \<subseteq># mset (remove1 t xs)"
    by (simp add: insert_subset_eq_iff)
  have "TitleToEpisodeTitle_then (ms\<lparr>items := xs @ app\<rparr>) (t # ts) =
        TitleToEpisodeTitle_then (ms\<lparr>items := remove1 t xs @ (app @ [t\<lparr>m_name := ''episodeTitle''\<rparr>])\<rparr>) ts"
    using t by (simp add: remove_match_def append_match_def remove1_append and_then_def)
  also have "\<dots> = Inr (ms\<lparr>items := fold remove1 ts (remove1 t xs) @ (app @ [t\<lparr>m_name := ''episodeTitle''\<rparr>]) @ map (\<lambda>m. m\<lparr>m_name := ''episodeTitle''\<rparr>) ts\<rparr>)"
    by (rule Cons.IH [OF sub])
  finally show ?case by simp
qed

lemma filter_not_remove1: "Q y \<Longrightarrow> filter (\<lambda>x. \<not> Q x) (remove1 y xs) = filter (\<lambda>x. \<not> Q x) xs"
  by (induction xs) auto

lemma fold_remove1_filter:
  "mset ys = mset (filter Q xs) \<Longrightarrow> fold remove1 ys xs = filter (\<lambda>x. \<not> Q x) xs"
proof (induction ys arbitrary: xs)
  case Nil
  then have "filter Q xs = []" by simp
  then show ?case by (simp add: filter_empty_conv)
next
  case (Cons y ys)
  have yin: "y \<in># mset (filter Q xs)" using Cons.prems by (metis mset.simps(2) union_single_eq_member)
  then have y: "y \<in> set xs" "Q y" by auto
  have "mset ys = mset (filter Q xs) - {#y#}" using Cons.prems by (metis add_mset_remove_trivial mset.simps(2))
  also have "\<dots> = mset (filter Q (remove1 y xs))" using y by (simp add: filter_remove1)
  finally have "fold remove1 ys (remove1 y xs) = filter (\<lambda>x. \<not> Q x) (remove1 y xs)" by (rule Cons.IH)
  then show ?case using y by (simp add: filter_not_remove1)
qed

lemma retag_following_noop:
  assumes "filter (follows_tag ''episodeNumber'' ms) (named ''title'' ms) = []"
  shows "retag_following ms = ms"
proof -
  from assms have "\<forall>m \<in> set (items ms). \<not> (m_name m = ''title'' \<and> follows_tag ''episodeNumber'' ms m)"
    by (auto simp: filter_empty_conv set_named)
  then have "filter (\<lambda>m. \<not> (m_name m = ''title'' \<and> follows_tag ''episodeNumber'' ms m)) (items ms) = items ms"
    by (simp add: filter_id_conv)
  then show ?thesis using assms by (simp add: retag_following_def)
qed

lemma TitleToEpisodeTitle_char:
  "TitleToEpisodeTitle ms =
     Inr (if length (named ''title'' ms) < 2 then ms else retag_following ms)"
proof (cases "length (named ''title'' ms) < 2")
  case True
  then show ?thesis by (simp add: TitleToEpisodeTitle_def TitleToEpisodeTitle_when_def)
next
  case False
  let ?sel = "follows_tag ''episodeNumber'' ms"
  let ?Q = "\<lambda>m. m_name m = ''title'' \<and> ?sel m"
  let ?E = "filter ?sel (named ''title'' ms)"
  have msetE: "mset ?E = mset (filter ?Q (items ms))"
    by (simp add: mset_named filter_filter_mset conj_commute)
  show ?thesis
  proof (cases "?E = []")
    case True
    then show ?thesis using False retag_following_noop [OF True]
      by (simp add: TitleToEpisodeTitle_def TitleToEpisodeTitle_when_def split_titles_eq)
  next
    case nonempty: False
    have sub: "mset ?E \<subseteq># mset (items ms)"
      unfolding msetE by simp
    have "TitleToEpisodeTitle_then (ms\<lparr>items := items ms @ []\<rparr>) ?E =
          Inr (ms\<lparr>items := fold remove1 ?E (items ms) @ [] @ map (\<lambda>m. m\<lparr>m_name := ''episodeTitle''\<rparr>) ?E\<rparr>)"
      by (rule then_general [OF sub])
    moreover have "fold remove1 ?E (items ms) = filter (\<lambda>m. \<not> ?Q m) (items ms)"
      by (rule fold_remove1_filter [OF msetE])
    ultimately show ?thesis using nonempty False
      by (simp add: TitleToEpisodeTitle_def TitleToEpisodeTitle_when_def split_titles_eq
          retag_following_def)
  qed
qed

text \<open>Whether a span follows a tag depends only on the end offsets of the collection and
  on the end offsets of the matches carrying the tag.\<close>

lemma follows_tag_alt:
  "follows_tag n ms t \<longleftrightarrow>
     (\<exists>e \<in> m_end ` {p \<in> set (items ms). m_name p = n}.
        e \<le> m_start t \<and> (\<forall>e' \<in> m_end ` set (items ms). e' \<le> m_start t \<longrightarrow> e' \<le> e))"
  by (auto simp: follows_tag_def immediately_precedes_def)







lemma AlternativeTitleReplace_guard:
  "has_named ''episodeTitle'' ms \<Longrightarrow> AlternativeTitleReplace seps ms = Inr ms"
  by (simp add: AlternativeTitleReplace_char)


lemma EpisodeTitleFromPosition_guard:
  "has_named ''episodeTitle'' ms \<Longrightarrow> EpisodeTitleFromPosition base ms = Inr ms"
  by (simp add: EpisodeTitleFromPosition_def EpisodeTitleFromPosition_when_def named_nonempty_iff)

lemma hole_filter_char:
  "hole_filter hole ms \<longleftrightarrow> follows_anchor ms hole \<or> has_named ''crc32'' ms"
  by (simp only: hole_filter_def Let_def previous_anchor_iff named_nonempty_iff)

lemma TitleToEpisodeTitle_ungrouped_eq: "TitleToEpisodeTitle ms = TitleToEpisodeTitle_ungrouped ms"
  by (simp add: TitleToEpisodeTitle_def TitleToEpisodeTitle_ungrouped_def
      TitleToEpisodeTitle_when_def TitleToEpisodeTitle_when_ungrouped_def Let_def)

lemma insort_key_map:
  "(\<And>y. k (g y) = k y) \<Longrightarrow> insort_key k (g x) (map g xs) = map g (insort_key k x xs)"
  by (induction xs) simp_all

lemma sort_key_map_inv:
  "(\<And>y. k (g y) = k y) \<Longrightarrow> sort_key k (map g xs) = map g (sort_key k xs)"
  by (induction xs) (simp_all add: insort_key_map)

lemma named_map_values:
  "named n (map_values f ms) = map (\<lambda>m. m\<lparr>m_value := f (m_value m)\<rparr>) (named n ms)"
  by (simp add: named_def named_in_def doc_order_def map_values_def filter_map o_def
      sort_key_map_inv)

lemma follows_tag_map_values:
  "follows_tag n (map_values f ms) (t\<lparr>m_value := v\<rparr>) = follows_tag n ms t"
proof -
  have a: "m_end ` set (items (map_values f ms)) = m_end ` set (items ms)"
    by (simp add: map_values_def image_image)
  have b: "m_end ` {p \<in> set (items (map_values f ms)). m_name p = n} =
           m_end ` {p \<in> set (items ms). m_name p = n}"
    by (auto simp: map_values_def image_iff) force
  show ?thesis unfolding follows_tag_alt a b by simp
qed

lemma retag_following_map_values:
  "retag_following (map_values f ms) = map_values f (retag_following ms)"
proof -
  let ?g = "\<lambda>m. m\<lparr>m_value := f (m_value m)\<rparr>"
  have i: "items (map_values f ms) = map ?g (items ms)"
    by (simp add: map_values_def)
  have "items (retag_following (map_values f ms)) = map ?g (items (retag_following ms))"
    by (simp add: retag_following_def i named_map_values filter_map o_def follows_tag_map_values)
  then show ?thesis
    by (simp add: retag_following_def map_values_def)
qed

lemma TitleToEpisodeTitle_map_values:
  "TitleToEpisodeTitle (map_values f ms) = map_sum id (map_values f) (TitleToEpisodeTitle ms)"
  by (simp add: TitleToEpisodeTitle_char named_map_values retag_following_map_values)

lemma length_named: "length (named n ms) = length (filter (\<lambda>m. m_name m = n) (items ms))"
  by (simp add: named_def named_in_def doc_order_def)


lemma retag_following_count:
  "length (named ''episodeTitle'' (retag_following ms)) =
     length (named ''episodeTitle'' ms)
     + length (filter (follows_tag ''episodeNumber'' ms) (named ''title'' ms))"
proof -
  have "filter (\<lambda>m. m_name m = ''episodeTitle'')
          (filter (\<lambda>m. \<not> (m_name m = ''title'' \<and> follows_tag ''episodeNumber'' ms m)) (items ms)) =
        filter (\<lambda>m. m_name m = ''episodeTitle'') (items ms)"
    by (auto intro: filter_cong)
  then show ?thesis
    by (simp add: length_named retag_following_def o_def)
qed




lemma named_retag_new:
  "\<not> has_named n ms \<Longrightarrow> named n (retag a n ms) = [a\<lparr>m_name := n\<rparr>]"
proof -
  assume "\<not> has_named n ms"
  then have "filter (\<lambda>m. m_name m = n) (remove1 a (items ms)) = []"
    by (auto simp: has_named_def filter_empty_conv dest: notin_set_remove1)
  then show ?thesis
    by (simp add: named_def named_in_def doc_order_def retag_def)
qed

lemma named_append_other:
  "m_name x \<noteq> n \<Longrightarrow> named n (ms\<lparr>items := items ms @ [x]\<rparr>) = named n ms"
  by (simp add: named_def named_in_def)

lemma AlternativeTitleReplace_cases:
  "AlternativeTitleReplace seps ms = Inr ms \<or>
   (\<not> has_named ''episodeTitle'' ms \<and>
    (\<exists>a \<in> set (named ''alternativeTitle'' ms).
       AlternativeTitleReplace seps ms = Inr (retag a ''episodeTitle'' ms)))"
  unfolding AlternativeTitleReplace_char
  by (auto split: option.splits dest: first_of_SomeD)

lemma AlternativeTitleReplace_at_most_one:
  assumes "\<not> has_named ''episodeTitle'' ms" "AlternativeTitleReplace seps ms = Inr ms'"
  shows "length (named ''episodeTitle'' ms') \<le> 1"
proof -
  from AlternativeTitleReplace_cases [of seps ms] assms(2)
  consider "ms' = ms" | a where "ms' = retag a ''episodeTitle'' ms" by auto
  then show ?thesis
  proof cases
    case 1
    have "named ''episodeTitle'' ms = []"
      using assms(1) named_nonempty_iff by blast
    then show ?thesis using 1 by simp
  next
    case 2
    then show ?thesis using named_retag_new [OF assms(1)] by simp
  qed
qed









text \<open>The answers of the two policies that \<open>EpisodeTitleFromPosition\<close> overrides.\<close>

lemma is_ignored_episodeDetails:
  "m_name m = ''episodeDetails'' \<Longrightarrow> is_ignored base m"
  by (simp add: is_ignored_def)

lemma should_keep_episodeDetails:
  "m_name m = ''episodeDetails'' \<Longrightarrow> \<not> follows_tag ''season'' ms m \<Longrightarrow>
   should_keep base m to_keep ms filepart hole = (True, False)"
  using previous_nonempty_iff [of m "''season''" ms] by (simp add: should_keep_def)

lemma Filepart3_cases:
  "Filepart3EpisodeTitle cleanup title_seps ms = Inr ms \<or>
   (\<exists>h \<in> set (nonempty_holes cleanup title_seps (subdirectory_of ms) ms).
      Filepart3EpisodeTitle cleanup title_seps ms = Inr (ms\<lparr>items := items ms @ [h\<lparr>m_name := ''title''\<rparr>]\<rparr>))"
  unfolding Filepart3EpisodeTitle_char subdirectory_of_def Let_def
  by (auto intro: hd_in_set)

lemma Filepart2_cases:
  "Filepart2EpisodeTitle cleanup title_seps ms = Inr ms \<or>
   (\<exists>h \<in> set (nonempty_holes cleanup title_seps (directory_of ms) ms).
      Filepart2EpisodeTitle cleanup title_seps ms = Inr (ms\<lparr>items := items ms @ [h\<lparr>m_name := ''title''\<rparr>]\<rparr>))"
  unfolding Filepart2EpisodeTitle_char directory_of_def Let_def
  by (auto intro: hd_in_set)

lemma Filepart3_keeps_episode_titles:
  "Filepart3EpisodeTitle cleanup title_seps ms = Inr ms' \<Longrightarrow>
   named ''episodeTitle'' ms' = named ''episodeTitle'' ms"
  using Filepart3_cases [of cleanup title_seps ms] by (auto simp: named_append_other)

lemma Filepart2_keeps_episode_titles:
  "Filepart2EpisodeTitle cleanup title_seps ms = Inr ms' \<Longrightarrow>
   named ''episodeTitle'' ms' = named ''episodeTitle'' ms"
  using Filepart2_cases [of cleanup title_seps ms] by (auto simp: named_append_other)

section \<open>The rules on the example collections\<close>

lemma ex_two_episodes_run:
  "TitleToEpisodeTitle ex_two_episodes = Inr ex_two_episodes_after"
  by (simp add: TitleToEpisodeTitle_char ex_two_episodes_def ex_two_episodes_after_def mk_def
      named_def named_in_def doc_order_def retag_following_def follows_tag_def
      immediately_precedes_def)

lemma ex_two_episodes_has: "has_named ''episodeTitle'' ex_two_episodes_after"
  by (simp add: has_named_def ex_two_episodes_after_def ex_two_episodes_def mk_def)

lemma ex_two_episodes_paths:
  "Filepart3EpisodeTitle id ex_title_seps ex_two_episodes = Inr ex_two_episodes"
  "Filepart2EpisodeTitle id ex_title_seps ex_two_episodes = Inr ex_two_episodes"
  by (simp_all add: Filepart3EpisodeTitle_char Filepart2EpisodeTitle_char markers_named_def
      ex_two_episodes_def mk_def)

lemma ex_alt_first:
  "first_of (named ''alternativeTitle'' ex_alt) =
     Some (mk ''alternativeTitle'' [''title''] ''Alt'' 10 13)"
  by (simp add: ex_alt_def mk_def named_def named_in_def doc_order_def first_of_def)

lemma ex_alt_promotable:
  "promotable ex_seps ex_alt (mk ''alternativeTitle'' [''title''] ''Alt'' 10 13)"
  by (simp add: promotable_def chain_before_def chain_add_def eval_nat_numeral at_index_def
      sep_at_def ex_alt_def ex_seps_def mk_def first_of_def follows_anchor_def follows_tag_def
      immediately_precedes_def episode_anchor_names_def)

lemma ex_alt_unanchored_first:
  "first_of (named ''alternativeTitle'' ex_alt_unanchored) =
     Some (mk ''alternativeTitle'' [''title''] ''Alt'' 7 10)"
  by (simp add: ex_alt_unanchored_def mk_def named_def named_in_def doc_order_def first_of_def)

lemma ex_alt_unanchored_chain:
  "first_of (chain_before 7 ex_seps (\<lambda>m. ''title'' \<in> set (m_tags m)) ex_alt_unanchored) =
     Some (mk ''title'' [''title''] ''Show'' 0 4)"
  by (simp add: chain_before_def chain_add_def eval_nat_numeral at_index_def sep_at_def
      ex_alt_unanchored_def ex_seps_def mk_def first_of_def)

lemma ex_alt_unanchored_not_promotable:
  "\<not> promotable ex_seps ex_alt_unanchored (mk ''alternativeTitle'' [''title''] ''Alt'' 7 10)"
proof -
  have "\<not> follows_anchor ex_alt_unanchored (mk ''title'' [''title''] ''Show'' 0 4)"
    by (simp add: follows_anchor_def follows_tag_def immediately_precedes_def
        ex_alt_unanchored_def mk_def episode_anchor_names_def)
  moreover have "\<not> has_named ''crc32'' ex_alt_unanchored"
    by (simp add: has_named_def ex_alt_unanchored_def mk_def)
  moreover have "m_start (mk ''alternativeTitle'' [''title''] ''Alt'' 7 10) = 7"
    by (simp add: mk_def)
  ultimately show ?thesis
    by (simp add: promotable_def ex_alt_unanchored_chain)
qed

lemma ex_alt_run: "AlternativeTitleReplace ex_seps ex_alt = Inr ex_alt_after"
proof -
  have noep: "\<not> has_named ''episodeTitle'' ex_alt"
    by (simp add: ex_alt_def mk_def has_named_def)
  show ?thesis
    using ex_alt_first noep ex_alt_promotable
    by (simp add: AlternativeTitleReplace_char retag_def ex_alt_after_def)
       (simp add: ex_alt_def mk_def)
qed





lemma ex_gap_text_run: "TitleToEpisodeTitle ex_gap_text = Inr ex_gap_text_after"
  by (simp add: TitleToEpisodeTitle_char ex_gap_text_def ex_gap_text_after_def mk_def
      named_def named_in_def doc_order_def retag_following_def follows_tag_def
      immediately_precedes_def)



section \<open>TitleToEpisodeTitle retags the titles that follow an episode number\<close>

text \<open>
  Claim C1, as stated, fails: the preceding match is found by position, across any
  gap, not only across a gap of separators. In \<open>ex_gap_text\<close>, the text
  \<open>A 5 xx B\<close>, the title \<open>B\<close> is separated from the episode number by the
  unmatched letters \<open>xx\<close>; it does not follow the episode number across a gap of
  separators, and the rule retags it all the same.
\<close>

theorem TitleToEpisodeTitle_crosses_text:
  "2 \<le> length (named ''title'' ex_gap_text) \<and>
   mk ''title'' [] ''B'' 7 8 \<in> set (named ''title'' ex_gap_text) \<and>
   \<not> follows_tag_across_separators ex_seps ''episodeNumber'' ex_gap_text (mk ''title'' [] ''B'' 7 8) \<and>
   TitleToEpisodeTitle ex_gap_text = Inr ex_gap_text_after \<and>
   mk ''episodeTitle'' [] ''B'' 7 8 \<in> set (items ex_gap_text_after) \<and>
   mk ''title'' [] ''B'' 7 8 \<notin> set (items ex_gap_text_after)"
proof -
  have a: "2 \<le> length (named ''title'' ex_gap_text) \<and>
           mk ''title'' [] ''B'' 7 8 \<in> set (named ''title'' ex_gap_text)"
    by (simp add: length_named set_named ex_gap_text_def mk_def)
  have b: "\<not> follows_tag_across_separators ex_seps ''episodeNumber'' ex_gap_text
               (mk ''title'' [] ''B'' 7 8)"
  proof -
    have "\<not> sep_at ex_seps (input_string ex_gap_text) 4"
      by (simp add: sep_at_def ex_gap_text_def ex_seps_def)
    then have "\<not> separator_gap ex_seps ex_gap_text (mk ''episodeNumber'' [] ''5'' 2 3)
                 (mk ''title'' [] ''B'' 7 8)"
      by (auto simp: separator_gap_def mk_def)
    then show ?thesis
      by (auto simp: follows_tag_across_separators_def ex_gap_text_def mk_def)
  qed
  have c: "mk ''episodeTitle'' [] ''B'' 7 8 \<in> set (items ex_gap_text_after) \<and>
           mk ''title'' [] ''B'' 7 8 \<notin> set (items ex_gap_text_after)"
    by (simp add: ex_gap_text_after_def mk_def)
  from a b c ex_gap_text_run show ?thesis by simp
qed

text \<open>
  Claim C1, amended. A collection holding fewer than two matches named \<open>title\<close> is
  left unchanged. On a collection holding at least two, the rule retags to
  \<open>episodeTitle\<close> exactly the titles whose immediately preceding match is named
  \<open>episodeNumber\<close>: these leave their place and are appended under the new name; every
  other entry, and so every other title, stays as it is and where it is. The
  immediately preceding match is the one ending nearest before the title starts,
  whatever the gap between the two holds.
\<close>

theorem TitleToEpisodeTitle_retags:
  "(length (named ''title'' ms) < 2 \<longrightarrow> TitleToEpisodeTitle ms = Inr ms) \<and>
   (2 \<le> length (named ''title'' ms) \<longrightarrow>
      TitleToEpisodeTitle ms = Inr (retag_following ms) \<and>
      filter (\<lambda>m. m_name m = ''title'') (items (retag_following ms)) =
        filter (\<lambda>m. m_name m = ''title'' \<and> \<not> follows_tag ''episodeNumber'' ms m) (items ms))"
proof -
  have "filter (\<lambda>m. m_name m = ''title'') (items (retag_following ms)) =
        filter (\<lambda>m. m_name m = ''title'' \<and> \<not> follows_tag ''episodeNumber'' ms m) (items ms)"
    by (auto simp: retag_following_def filter_empty_conv intro: filter_cong)
  then show ?thesis
    by (simp add: TitleToEpisodeTitle_char)
qed

theorem TitleToEpisodeTitle_retags_witness:
  "length (named ''title'' ex_alt) < 2 \<and> TitleToEpisodeTitle ex_alt = Inr ex_alt \<and>
   2 \<le> length (named ''title'' ex_titles) \<and>
   TitleToEpisodeTitle ex_titles =
     Inr (ex_titles\<lparr>items := [mk ''title'' [] ''A'' 0 1, mk ''episodeNumber'' [] ''5'' 2 3,
                               mk ''episodeTitle'' [] ''B'' 4 5]\<rparr>)"
proof -
  have one: "length (named ''title'' ex_alt) < 2"
    by (simp add: length_named ex_alt_def mk_def)
  have "TitleToEpisodeTitle ex_titles =
     Inr (ex_titles\<lparr>items := [mk ''title'' [] ''A'' 0 1, mk ''episodeNumber'' [] ''5'' 2 3,
                               mk ''episodeTitle'' [] ''B'' 4 5]\<rparr>) \<and>
     2 \<le> length (named ''title'' ex_titles)"
    using TitleToEpisodeTitle_retags [of ex_titles]
    by (simp add: ex_titles_def mk_def named_def named_in_def doc_order_def retag_following_def
        follows_tag_def immediately_precedes_def)
  then show ?thesis
    using TitleToEpisodeTitle_retags [of ex_alt] one by simp
qed

section \<open>AlternativeTitleReplace promotes the first alternative title\<close>

text \<open>
  Claim C3. When a match named \<open>episodeTitle\<close> exists the rule changes nothing.
  Otherwise it looks at the first match named \<open>alternativeTitle\<close> in document order
  and retags it to \<open>episodeTitle\<close> if and only if the chain before its start reaches
  a main title (a match carrying the secondary tag \<open>title\<close>) and that main title
  follows a match named \<open>episodeNumber\<close>, \<open>episodeDetails\<close>, \<open>episodeCount\<close>,
  \<open>season\<close>, \<open>seasonCount\<close>, \<open>date\<close> or \<open>title\<close>, or a \<open>crc32\<close> match
  exists. In every other case the collection is unchanged; the retagged collection
  always differs from the given one.
\<close>

theorem AlternativeTitleReplace_promotes:
  "(has_named ''episodeTitle'' ms \<longrightarrow> AlternativeTitleReplace seps ms = Inr ms) \<and>
   (\<not> has_named ''episodeTitle'' ms \<longrightarrow>
      (case first_of (named ''alternativeTitle'' ms) of
         None \<Rightarrow> AlternativeTitleReplace seps ms = Inr ms
       | Some a \<Rightarrow>
           (promotable seps ms a \<longrightarrow>
              AlternativeTitleReplace seps ms = Inr (retag a ''episodeTitle'' ms) \<and>
              retag a ''episodeTitle'' ms \<noteq> ms) \<and>
           (\<not> promotable seps ms a \<longrightarrow> AlternativeTitleReplace seps ms = Inr ms)))"
  by (simp add: AlternativeTitleReplace_char retag_changes split: option.splits)

theorem AlternativeTitleReplace_promotes_witness:
  "\<not> has_named ''episodeTitle'' ex_alt \<and>
   first_of (named ''alternativeTitle'' ex_alt) = Some (mk ''alternativeTitle'' [''title''] ''Alt'' 10 13) \<and>
   promotable ex_seps ex_alt (mk ''alternativeTitle'' [''title''] ''Alt'' 10 13) \<and>
   AlternativeTitleReplace ex_seps ex_alt = Inr ex_alt_after \<and>
   ex_alt_after \<noteq> ex_alt \<and>
   has_named ''episodeTitle'' ex_alt_after \<and>
   AlternativeTitleReplace ex_seps ex_alt_after = Inr ex_alt_after \<and>
   \<not> has_named ''episodeTitle'' ex_alt_unanchored \<and>
   \<not> promotable ex_seps ex_alt_unanchored (mk ''alternativeTitle'' [''title''] ''Alt'' 7 10) \<and>
   AlternativeTitleReplace ex_seps ex_alt_unanchored = Inr ex_alt_unanchored"
proof -
  have noep: "\<not> has_named ''episodeTitle'' ex_alt"
    by (simp add: ex_alt_def mk_def has_named_def)
  have r: "retag (mk ''alternativeTitle'' [''title''] ''Alt'' 10 13) ''episodeTitle'' ex_alt = ex_alt_after"
    by (simp add: retag_def ex_alt_after_def) (simp add: ex_alt_def mk_def)
  have ep: "has_named ''episodeTitle'' ex_alt_after"
    by (simp add: has_named_def ex_alt_after_def mk_def)
  have noep': "\<not> has_named ''episodeTitle'' ex_alt_unanchored"
    by (simp add: ex_alt_unanchored_def mk_def has_named_def)
  show ?thesis
    using AlternativeTitleReplace_promotes [of ex_alt ex_seps]
      AlternativeTitleReplace_promotes [of ex_alt_after ex_seps]
      AlternativeTitleReplace_promotes [of ex_alt_unanchored ex_seps]
      ex_alt_first ex_alt_promotable noep r ep noep' ex_alt_unanchored_first
      ex_alt_unanchored_not_promotable
    by simp
qed

section \<open>Filepart3EpisodeTitle takes the title from the third path segment from the end\<close>

text \<open>
  Claim C5. The rule appends a new match named \<open>title\<close> if and only if there are at
  least three path markers, the range of the last one contains a match named
  \<open>episodeNumber\<close>, the range of the second-to-last contains a match named
  \<open>season\<close>, and the range of the third-to-last contains a hole whose value is
  non-empty after formatting and separator trimming. The appended match is the first
  such hole; it lies in that range and covers no offset that a match covers. In every
  other case the collection is unchanged.
\<close>

theorem Filepart3EpisodeTitle_appends:
  "(fires3 cleanup title_seps ms \<longrightarrow>
      Filepart3EpisodeTitle cleanup title_seps ms =
        Inr (ms\<lparr>items := items ms @
               [(hd (nonempty_holes cleanup title_seps (subdirectory_of ms) ms))\<lparr>m_name := ''title''\<rparr>]\<rparr>)
      \<and> m_value (hd (nonempty_holes cleanup title_seps (subdirectory_of ms) ms)) \<noteq> []
      \<and> in_segment (subdirectory_of ms) (hd (nonempty_holes cleanup title_seps (subdirectory_of ms) ms))
      \<and> (\<forall>i. m_start (hd (nonempty_holes cleanup title_seps (subdirectory_of ms) ms)) \<le> i
               \<and> i < m_end (hd (nonempty_holes cleanup title_seps (subdirectory_of ms) ms))
             \<longrightarrow> \<not> covered ms i)) \<and>
   (\<not> fires3 cleanup title_seps ms \<longrightarrow> Filepart3EpisodeTitle cleanup title_seps ms = Inr ms)"
proof -
  have "nonempty_holes cleanup title_seps seg ms \<noteq> [] \<Longrightarrow>
        m_value (hd (nonempty_holes cleanup title_seps seg ms)) \<noteq> [] \<and>
        in_segment seg (hd (nonempty_holes cleanup title_seps seg ms)) \<and>
        (\<forall>i. m_start (hd (nonempty_holes cleanup title_seps seg ms)) \<le> i
              \<and> i < m_end (hd (nonempty_holes cleanup title_seps seg ms))
            \<longrightarrow> \<not> covered ms i)" for seg
    using holes_sound [of "hd (nonempty_holes cleanup title_seps seg ms)" "m_start seg" "m_end seg"
        cleanup title_seps "\<lambda>h. m_value h \<noteq> []" ms]
      hd_in_set [of "nonempty_holes cleanup title_seps seg ms"]
    by (simp add: nonempty_holes_def in_segment_def)
  note sound = this
  have run: "Filepart3EpisodeTitle cleanup title_seps ms =
      Inr (if fires3 cleanup title_seps ms
           then ms\<lparr>items := items ms @
                  [(hd (nonempty_holes cleanup title_seps (subdirectory_of ms) ms))\<lparr>m_name := ''title''\<rparr>]\<rparr>
           else ms)"
    by (simp add: Filepart3EpisodeTitle_char fires3_def subdirectory_of_def Let_def)
  show ?thesis
  proof (cases "fires3 cleanup title_seps ms")
    case True
    then have ne: "nonempty_holes cleanup title_seps (subdirectory_of ms) ms \<noteq> []"
      by (simp add: fires3_def subdirectory_of_def Let_def)
    from True run sound [OF ne] show ?thesis by simp
  next
    case False
    with run show ?thesis by simp
  qed
qed

theorem Filepart3EpisodeTitle_appends_witness:
  "fires3 id ex_title_seps ex_path3 \<and>
   Filepart3EpisodeTitle id ex_title_seps ex_path3 =
     Inr (ex_path3\<lparr>items := items ex_path3 @ [mk ''title'' [] ''Show Name'' 0 9]\<rparr>) \<and>
   \<not> fires3 id ex_title_seps ex_path2 \<and>
   Filepart3EpisodeTitle id ex_title_seps ex_path2 = Inr ex_path2"
proof -
  have g: "\<not> fires3 id ex_title_seps ex_path2"
    by (simp add: fires3_def markers_named_def ex_path2_def mk_def)
  have h: "nonempty_holes id ex_title_seps (subdirectory_of ex_path3) ex_path3 =
           [mk [] [] ''Show Name'' 0 9]"
    by (simp add: nonempty_holes_def subdirectory_of_def holes_def markers_named_def ex_path3_def
        mk_def upt_conv_Cons covered_def trim_span_def hole_match_def sep_at_def
        ex_title_seps_def eval_nat_numeral)
  have f: "fires3 id ex_title_seps ex_path3"
    using h by (simp add: fires3_def Let_def subdirectory_of_def)
      (simp add: markers_named_def ex_path3_def mk_def segment_contains_def)
  show ?thesis
    using Filepart3EpisodeTitle_appends [of id ex_title_seps ex_path3]
      Filepart3EpisodeTitle_appends [of id ex_title_seps ex_path2] f g h
    by (simp add: mk_def)
qed

section \<open>Filepart2EpisodeTitle takes the title from the directory segment\<close>

text \<open>
  Claim C6. The rule appends a new match named \<open>title\<close> if and only if there are at
  least two path markers, the range of the last one (the file name) contains a match
  named \<open>episodeNumber\<close>, the range of the second-to-last one (the directory)
  contains a match named \<open>season\<close>, and the directory's own range contains a hole of
  non-empty value. The appended match is the first such hole of the directory's range;
  it lies in that range and covers no offset that a match covers. In every other case
  the collection is unchanged.
\<close>

theorem Filepart2EpisodeTitle_appends:
  "(fires2 cleanup title_seps ms \<longrightarrow>
      Filepart2EpisodeTitle cleanup title_seps ms =
        Inr (ms\<lparr>items := items ms @
               [(hd (nonempty_holes cleanup title_seps (directory_of ms) ms))\<lparr>m_name := ''title''\<rparr>]\<rparr>)
      \<and> m_value (hd (nonempty_holes cleanup title_seps (directory_of ms) ms)) \<noteq> []
      \<and> in_segment (directory_of ms) (hd (nonempty_holes cleanup title_seps (directory_of ms) ms))
      \<and> (\<forall>i. m_start (hd (nonempty_holes cleanup title_seps (directory_of ms) ms)) \<le> i
               \<and> i < m_end (hd (nonempty_holes cleanup title_seps (directory_of ms) ms))
             \<longrightarrow> \<not> covered ms i)) \<and>
   (\<not> fires2 cleanup title_seps ms \<longrightarrow> Filepart2EpisodeTitle cleanup title_seps ms = Inr ms)"
proof -
  have "nonempty_holes cleanup title_seps seg ms \<noteq> [] \<Longrightarrow>
        m_value (hd (nonempty_holes cleanup title_seps seg ms)) \<noteq> [] \<and>
        in_segment seg (hd (nonempty_holes cleanup title_seps seg ms)) \<and>
        (\<forall>i. m_start (hd (nonempty_holes cleanup title_seps seg ms)) \<le> i
              \<and> i < m_end (hd (nonempty_holes cleanup title_seps seg ms))
            \<longrightarrow> \<not> covered ms i)" for seg
    using holes_sound [of "hd (nonempty_holes cleanup title_seps seg ms)" "m_start seg" "m_end seg"
        cleanup title_seps "\<lambda>h. m_value h \<noteq> []" ms]
      hd_in_set [of "nonempty_holes cleanup title_seps seg ms"]
    by (simp add: nonempty_holes_def in_segment_def)
  note sound = this
  have run: "Filepart2EpisodeTitle cleanup title_seps ms =
      Inr (if fires2 cleanup title_seps ms
           then ms\<lparr>items := items ms @
                  [(hd (nonempty_holes cleanup title_seps (directory_of ms) ms))\<lparr>m_name := ''title''\<rparr>]\<rparr>
           else ms)"
    by (simp add: Filepart2EpisodeTitle_char fires2_def directory_of_def Let_def)
  show ?thesis
  proof (cases "fires2 cleanup title_seps ms")
    case True
    then have ne: "nonempty_holes cleanup title_seps (directory_of ms) ms \<noteq> []"
      by (simp add: fires2_def directory_of_def Let_def)
    from True run sound [OF ne] show ?thesis by simp
  next
    case False
    with run show ?thesis by simp
  qed
qed

theorem Filepart2EpisodeTitle_appends_witness:
  "fires2 id ex_title_seps ex_path2 \<and>
   Filepart2EpisodeTitle id ex_title_seps ex_path2 =
     Inr (ex_path2\<lparr>items := items ex_path2 @ [mk ''title'' [] ''Show Name '' 0 10]\<rparr>) \<and>
   \<not> fires2 id ex_title_seps ex_alt \<and>
   Filepart2EpisodeTitle id ex_title_seps ex_alt = Inr ex_alt"
proof -
  have g: "\<not> fires2 id ex_title_seps ex_alt"
    by (simp add: fires2_def markers_named_def ex_alt_def mk_def)
  have h: "nonempty_holes id ex_title_seps (directory_of ex_path2) ex_path2 =
           [mk [] [] ''Show Name '' 0 10]"
    by (simp add: nonempty_holes_def directory_of_def holes_def markers_named_def ex_path2_def
        mk_def upt_conv_Cons covered_def trim_span_def hole_match_def sep_at_def
        ex_title_seps_def eval_nat_numeral)
  have f: "fires2 id ex_title_seps ex_path2"
    using h by (simp add: fires2_def Let_def directory_of_def)
      (simp add: markers_named_def ex_path2_def mk_def segment_contains_def)
  show ?thesis
    using Filepart2EpisodeTitle_appends [of id ex_title_seps ex_path2]
      Filepart2EpisodeTitle_appends [of id ex_title_seps ex_alt] f g h
    by (simp add: mk_def)
qed

section \<open>The existence guards and the number of episode titles\<close>

text \<open>
  Claim C2, as stated, fails: \<open>TitleToEpisodeTitle\<close> produces \<open>episodeTitle\<close>
  matches without looking for an existing one. On \<open>ex_two_episodes\<close>, which holds
  no \<open>episodeTitle\<close> and two titles that each follow an episode number, the whole
  ensemble ends with two matches named \<open>episodeTitle\<close>. The two path rules change
  nothing before or after the chain, so their place in the order does not matter.
\<close>

theorem ensemble_two_episode_titles:
  "\<not> has_named ''episodeTitle'' ex_two_episodes \<and>
   EPISODE_TITLE ex_base id ex_seps ex_title_seps ex_two_episodes = Inr ex_two_episodes_after \<and>
   length (named ''episodeTitle'' ex_two_episodes_after) = 2 \<and>
   Filepart3EpisodeTitle id ex_title_seps ex_two_episodes_after = Inr ex_two_episodes_after \<and>
   Filepart2EpisodeTitle id ex_title_seps ex_two_episodes_after = Inr ex_two_episodes_after"
proof -
  have d: "Filepart3EpisodeTitle id ex_title_seps ex_two_episodes_after = Inr ex_two_episodes_after \<and>
   Filepart2EpisodeTitle id ex_title_seps ex_two_episodes_after = Inr ex_two_episodes_after"
    by (simp add: Filepart3EpisodeTitle_char Filepart2EpisodeTitle_char markers_named_def
        ex_two_episodes_after_def ex_two_episodes_def mk_def)
  have a: "\<not> has_named ''episodeTitle'' ex_two_episodes"
    by (simp add: has_named_def ex_two_episodes_def mk_def)
  have b: "EPISODE_TITLE ex_base id ex_seps ex_title_seps ex_two_episodes = Inr ex_two_episodes_after"
    by (simp add: EPISODE_TITLE_def title_chain_def and_then_def ex_two_episodes_paths
        ex_two_episodes_run EpisodeTitleFromPosition_guard AlternativeTitleReplace_guard
        ex_two_episodes_has)
  have c: "length (named ''episodeTitle'' ex_two_episodes_after) = 2"
    by (simp add: length_named ex_two_episodes_after_def ex_two_episodes_def mk_def)
  from a b c d show ?thesis by simp
qed

text \<open>
  Claim C2, amended. \<open>EpisodeTitleFromPosition\<close> and \<open>AlternativeTitleReplace\<close>
  check for an existing \<open>episodeTitle\<close> and change nothing when there is one;
  \<open>AlternativeTitleReplace\<close> leaves at most one on a collection that had none; the
  two path rules produce none. \<open>TitleToEpisodeTitle\<close> makes no such check: on a
  collection with at least two titles it adds one \<open>episodeTitle\<close> for every title
  that follows an episode number.
\<close>

theorem episode_title_guards:
  "(has_named ''episodeTitle'' ms \<longrightarrow>
      EpisodeTitleFromPosition base ms = Inr ms \<and> AlternativeTitleReplace seps ms = Inr ms) \<and>
   (\<not> has_named ''episodeTitle'' ms \<and> AlternativeTitleReplace seps ms = Inr ms' \<longrightarrow>
      length (named ''episodeTitle'' ms') \<le> 1) \<and>
   (Filepart3EpisodeTitle cleanup title_seps ms = Inr ms' \<longrightarrow>
      named ''episodeTitle'' ms' = named ''episodeTitle'' ms) \<and>
   (Filepart2EpisodeTitle cleanup title_seps ms = Inr ms' \<longrightarrow>
      named ''episodeTitle'' ms' = named ''episodeTitle'' ms) \<and>
   (2 \<le> length (named ''title'' ms) \<longrightarrow>
      TitleToEpisodeTitle ms = Inr (retag_following ms) \<and>
      length (named ''episodeTitle'' (retag_following ms)) =
        length (named ''episodeTitle'' ms)
        + length (filter (follows_tag ''episodeNumber'' ms) (named ''title'' ms)))"
  using AlternativeTitleReplace_at_most_one [of ms seps ms']
    Filepart3_keeps_episode_titles [of cleanup title_seps ms ms']
    Filepart2_keeps_episode_titles [of cleanup title_seps ms ms']
  by (simp add: EpisodeTitleFromPosition_guard AlternativeTitleReplace_guard
      TitleToEpisodeTitle_char retag_following_count)

theorem episode_title_guards_witness:
  "has_named ''episodeTitle'' ex_two_episodes_after \<and>
   EpisodeTitleFromPosition ex_base ex_two_episodes_after = Inr ex_two_episodes_after \<and>
   AlternativeTitleReplace ex_seps ex_two_episodes_after = Inr ex_two_episodes_after \<and>
   \<not> has_named ''episodeTitle'' ex_alt \<and>
   AlternativeTitleReplace ex_seps ex_alt = Inr ex_alt_after \<and>
   length (named ''episodeTitle'' ex_alt_after) \<le> 1 \<and>
   2 \<le> length (named ''title'' ex_two_episodes) \<and>
   TitleToEpisodeTitle ex_two_episodes = Inr (retag_following ex_two_episodes) \<and>
   length (named ''episodeTitle'' (retag_following ex_two_episodes)) = 2"
proof -
  have n: "\<not> has_named ''episodeTitle'' ex_alt"
    by (simp add: ex_alt_def mk_def has_named_def)
  have t: "2 \<le> length (named ''title'' ex_two_episodes)"
    by (simp add: length_named ex_two_episodes_def mk_def)
  have k: "length (named ''episodeTitle'' ex_two_episodes)
        + length (filter (follows_tag ''episodeNumber'' ex_two_episodes) (named ''title'' ex_two_episodes)) = 2"
    by (simp add: ex_two_episodes_def mk_def named_def named_in_def doc_order_def follows_tag_def
        immediately_precedes_def)
  show ?thesis
    using episode_title_guards [of ex_two_episodes_after ex_base ex_seps ex_two_episodes_after id ex_title_seps]
      episode_title_guards [of ex_alt ex_base ex_seps ex_alt_after id ex_title_seps]
      episode_title_guards [of ex_two_episodes ex_base ex_seps ex_two_episodes id ex_title_seps]
      ex_two_episodes_has ex_alt_run n t k
    by simp
qed

section \<open>The hole filter of EpisodeTitleFromPosition\<close>

text \<open>
  Claim C4, as stated, fails: the filter looks for the nearest preceding match of the
  whole collection, not of the hole's path segment. On \<open>ex_segments\<close> the hole
  opens the second segment and the nearest preceding match, an episode number, lies in
  the first: the filter accepts the hole, the condition restricted to the segment does
  not hold, and there is no \<open>crc32\<close> match.
\<close>

theorem hole_filter_crosses_segments:
  "hole_filter ex_hole ex_segments \<and> \<not> hole_filter_in_segment ex_hole ex_segments"
proof -
  have "hole_filter ex_hole ex_segments"
    by (simp add: hole_filter_char ex_hole_def ex_segments_def mk_def has_named_def
        follows_anchor_def follows_tag_def immediately_precedes_def episode_anchor_names_def)
  moreover have "\<not> hole_filter_in_segment ex_hole ex_segments"
    by (simp add: hole_filter_in_segment_def follows_anchor_in_segment_def in_segment_def
        markers_named_def has_named_def ex_hole_def ex_segments_def mk_def)
  ultimately show ?thesis by simp
qed

text \<open>
  Claim C4, amended. A candidate hole is accepted if and only if the nearest preceding
  match of the collection, in whatever path segment it lies, is named
  \<open>episodeNumber\<close>, \<open>episodeDetails\<close>, \<open>episodeCount\<close>, \<open>season\<close>,
  \<open>seasonCount\<close>, \<open>date\<close> or \<open>title\<close>, or a \<open>crc32\<close> match exists.
\<close>

theorem hole_filter_accepts:
  "hole_filter hole ms \<longleftrightarrow> follows_anchor ms hole \<or> has_named ''crc32'' ms"
  by (rule hole_filter_char)

theorem hole_filter_accepts_witness:
  "hole_filter ex_hole ex_segments \<and> follows_anchor ex_segments ex_hole \<and>
   \<not> has_named ''crc32'' ex_segments"
  using hole_filter_accepts [of ex_hole ex_segments]
  by (simp add: ex_hole_def ex_segments_def mk_def has_named_def follows_anchor_def
      follows_tag_def immediately_precedes_def episode_anchor_names_def)

section \<open>Idempotence\<close>




section \<open>All or nothing\<close>



section \<open>The grouping of the titles by value\<close>

text \<open>
  Claim C10. \<open>TitleToEpisodeTitle\<close> gives, on every collection, what the same rule
  gives with the grouping of the titles by value taken out. Which titles are retagged
  does not depend on the values: rewriting every value of the collection by any
  function, also one that makes all the values equal, and running the rule gives what
  running the rule and rewriting the values of its result gives.
\<close>

theorem TitleToEpisodeTitle_ignores_grouping:
  "TitleToEpisodeTitle ms = TitleToEpisodeTitle_ungrouped ms \<and>
   TitleToEpisodeTitle (map_values f ms) = map_sum id (map_values f) (TitleToEpisodeTitle ms)"
  using TitleToEpisodeTitle_ungrouped_eq TitleToEpisodeTitle_map_values by simp

theorem TitleToEpisodeTitle_ignores_grouping_witness:
  "TitleToEpisodeTitle_ungrouped ex_two_episodes = Inr ex_two_episodes_after \<and>
   TitleToEpisodeTitle (map_values (\<lambda>v. ''Same'') ex_two_episodes) =
     Inr (map_values (\<lambda>v. ''Same'') ex_two_episodes_after)"
  using TitleToEpisodeTitle_ignores_grouping [of ex_two_episodes "\<lambda>v. ''Same''"]
  by (simp add: ex_two_episodes_run)

end
